theory Spec2Isabelle
  imports Main "HOL-Library.Sublist"
begin

section \<open>pyudev.monitor: exceptions, outcomes and the external collaborators\<close>

text \<open>
  The module \<^verbatim>\<open>pyudev/monitor.py\<close> holds two classes: \<^verbatim>\<open>Monitor\<close>, a
  synchronous device event monitor on top of a libudev \<^verbatim>\<open>udev_monitor\<close> handle, and
  \<^verbatim>\<open>MonitorObserver\<close>, a thread that drains a monitor and hands every device to a
  callback until a stop event arrives on a pipe.

  Every Python method becomes a function that takes the state it reads and returns an
  outcome together with the state it leaves behind. An outcome is a normal return, a
  raised exception, or \<open>Block\<close>: the call never returns (a \<^verbatim>\<open>select\<close> without
  time-out on a silent socket, a \<^verbatim>\<open>join\<close> on a thread that is still alive).
\<close>

datatype exn =
  ValueError | OverflowError | EnvironmentError | OSError | RuntimeError | CallbackError

datatype 'a outcome = Return 'a | Raise exn | Block

text \<open>
  Pointers handed out by libudev are natural numbers, \<open>0\<close> is \<^verbatim>\<open>NULL\<close>: the source
  tests them with \<^verbatim>\<open>if not monitor\<close> and \<^verbatim>\<open>if not device_p\<close>.
  A \<^verbatim>\<open>Device\<close> is the pair the source builds with \<^verbatim>\<open>Device(self.context, device_p)\<close>;
  the class itself lives in \<^verbatim>\<open>pyudev.core\<close>.
\<close>

record device =
  device_context :: nat
  device_p :: nat

definition Device :: "nat \<Rightarrow> nat \<Rightarrow> device" where
  "Device ctx p = \<lparr>device_context = ctx, device_p = p\<rparr>"

text \<open>The attributes \<^verbatim>\<open>Monitor.__init__\<close> sets.\<close>

record monitor =
  udev_context :: nat
  as_parameter :: nat
  started :: bool

definition Monitor_init :: "nat \<Rightarrow> nat \<Rightarrow> monitor" where
  "Monitor_init ctx monitor_p = \<lparr>udev_context = ctx, as_parameter = monitor_p, started = False\<rparr>"

text \<open>
  Modelled from the spec: the binding \<^verbatim>\<open>context._libudev\<close> is not part of the
  module. Section 6 of the specification gives its contract:
  \<^verbatim>\<open>open_channel(source_name) -> ChannelHandle | fails(ConnectionError)\<close>.
  The library is a record holding the handle its next
  \<^verbatim>\<open>udev_monitor_new_from_netlink\<close> call hands out (\<open>0\<close> when the connection to the
  daemon cannot be established) and the log of the connection attempts made so far.
\<close>

record libudev =
  netlink_handle :: nat
  netlink_calls :: "(nat \<times> string) list"

definition udev_monitor_new_from_netlink ::
  "libudev \<Rightarrow> nat \<Rightarrow> string \<Rightarrow> nat \<times> libudev" where
  "udev_monitor_new_from_netlink lib ctx name =
     (netlink_handle lib, lib\<lparr>netlink_calls := netlink_calls lib @ [(ctx, name)]\<rparr>)"

text \<open>
  Modelled from the spec: \<^verbatim>\<open>ensure_byte_string\<close> of \<^verbatim>\<open>pyudev._util\<close> encodes a
  unicode string as bytes; on the byte strings of the model it is the identity.
\<close>

definition ensure_byte_string :: "string \<Rightarrow> string" where
  "ensure_byte_string s = s"

definition from_netlink :: "libudev \<Rightarrow> nat \<Rightarrow> string \<Rightarrow> monitor outcome \<times> libudev" where
  "from_netlink lib ctx source =
     (if source \<notin> set [''kernel'', ''udev''] then (Raise ValueError, lib)
      else
        (let (monitor_p, lib') = udev_monitor_new_from_netlink lib ctx (ensure_byte_string source)
         in if monitor_p = 0 then (Raise EnvironmentError, lib')
            else (Return (Monitor_init ctx monitor_p), lib')))"

section \<open>The monitor and the socket behind it\<close>

text \<open>
  Modelled from the spec: the state libudev and the kernel keep for one
  \<^verbatim>\<open>udev_monitor\<close> handle, after the contract of section 6
  (\<^verbatim>\<open>channel_enable\<close>, \<^verbatim>\<open>channel_fd\<close>, \<^verbatim>\<open>channel_add_filter\<close>,
  \<^verbatim>\<open>channel_commit_filters\<close>, \<^verbatim>\<open>channel_clear_filters\<close>,
  \<^verbatim>\<open>channel_set_buffer_size\<close>, \<^verbatim>\<open>channel_receive\<close>).
  \<^item> \<open>receiving\<close>: \<^verbatim>\<open>udev_monitor_enable_receiving\<close> has been called; before that
    the socket is not bound and nothing is queued on it ("The monitor will not receive
    events until this method is called", docstring of \<^verbatim>\<open>start\<close>).
  \<^item> \<open>queue\<close>: the datagrams buffered on the socket, oldest first. Each one is written
    as the pointer \<^verbatim>\<open>udev_monitor_receive_device\<close> returns for it: \<open>0\<close> for a
    datagram the library rejects.
  \<^item> \<open>delivered\<close>, \<open>enable_calls\<close>, \<open>receive_calls\<close>, \<open>filter_updates\<close>:
    history, written by the library calls and read by no code.
\<close>

record mworld =
  mon :: monitor
  fd :: int
  receiving :: bool
  queue :: "nat list"
  delivered :: "nat list"
  enable_calls :: nat
  receive_calls :: nat
  subsystem_matches :: "(string \<times> string option) list"
  tag_matches :: "string list"
  filter_updates :: nat
  receive_buffer_size :: "int option"

definition udev_monitor_enable_receiving :: "'a mworld_scheme \<Rightarrow> 'a mworld_scheme" where
  "udev_monitor_enable_receiving w =
     w\<lparr>receiving := True, enable_calls := Suc (enable_calls w)\<rparr>"

definition udev_monitor_get_fd :: "'a mworld_scheme \<Rightarrow> int" where
  "udev_monitor_get_fd w = fd w"

definition udev_monitor_receive_device :: "'a mworld_scheme \<Rightarrow> nat \<times> 'a mworld_scheme" where
  "udev_monitor_receive_device w =
     (case queue w of
        [] \<Rightarrow> (0, w\<lparr>receive_calls := Suc (receive_calls w)\<rparr>)
      | p # ps \<Rightarrow> (p, w\<lparr>queue := ps, receive_calls := Suc (receive_calls w)\<rparr>))"

definition udev_monitor_filter_add_match_subsystem_devtype ::
  "string \<Rightarrow> string option \<Rightarrow> 'a mworld_scheme \<Rightarrow> 'a mworld_scheme" where
  "udev_monitor_filter_add_match_subsystem_devtype subsystem device_type w =
     w\<lparr>subsystem_matches := subsystem_matches w @ [(subsystem, device_type)]\<rparr>"

definition udev_monitor_filter_add_match_tag ::
  "string \<Rightarrow> 'a mworld_scheme \<Rightarrow> 'a mworld_scheme" where
  "udev_monitor_filter_add_match_tag tag w = w\<lparr>tag_matches := tag_matches w @ [tag]\<rparr>"

definition udev_monitor_filter_remove :: "'a mworld_scheme \<Rightarrow> 'a mworld_scheme" where
  "udev_monitor_filter_remove w = w\<lparr>subsystem_matches := [], tag_matches := []\<rparr>"

definition udev_monitor_filter_update :: "'a mworld_scheme \<Rightarrow> 'a mworld_scheme" where
  "udev_monitor_filter_update w = w\<lparr>filter_updates := Suc (filter_updates w)\<rparr>"

definition udev_monitor_set_receive_buffer_size ::
  "int \<Rightarrow> 'a mworld_scheme \<Rightarrow> 'a mworld_scheme" where
  "udev_monitor_set_receive_buffer_size n w = w\<lparr>receive_buffer_size := Some n\<rparr>"

text \<open>
  The kernel queues a datagram on the socket of the monitor: it is dropped while the
  monitor is not receiving.
\<close>

definition inject :: "nat \<Rightarrow> 'a mworld_scheme \<Rightarrow> 'a mworld_scheme" where
  "inject p w =
     (if receiving w then w\<lparr>queue := queue w @ [p], delivered := delivered w @ [p]\<rparr> else w)"

text \<open>
  \<^verbatim>\<open>select.select([self], [], [], timeout)\<close> on the monitor alone, as CPython
  implements it. A time-out is \<open>None\<close> or a number of time units, the unit being the
  resolution of the C time type (a nanosecond); \<open>TIMEOUT_MAX\<close> is the largest
  number that type holds. The call
  \<^item> converts the time-out first: \<^verbatim>\<open>OverflowError\<close> when it does not fit the C time
    type, \<^verbatim>\<open>ValueError\<close> when it is negative;
  \<^item> then asks the monitor for its descriptor (\<^verbatim>\<open>fileno()\<close>): \<^verbatim>\<open>ValueError\<close> when
    the descriptor is negative or not below \<^verbatim>\<open>FD_SETSIZE\<close>, the size of the
    descriptor set of \<^verbatim>\<open>select(2)\<close>;
  \<^item> then waits: the socket is readable when a datagram is queued. With a time-out the
    call returns whether the monitor is in \<^verbatim>\<open>rlist\<close>; without a time-out it
    returns only once the socket is readable.
\<close>

text \<open>\<^verbatim>\<open>Monitor.fileno\<close>, which \<^verbatim>\<open>select\<close> calls on the monitor.\<close>

definition fileno :: "'a mworld_scheme \<Rightarrow> int" where
  "fileno w = udev_monitor_get_fd w"

definition FD_SETSIZE :: int where
  "FD_SETSIZE = 1024"

definition TIMEOUT_MAX :: int where
  "TIMEOUT_MAX = 2 ^ 63 - 1"

definition selectable :: "'a mworld_scheme \<Rightarrow> bool" where
  "selectable w = (0 \<le> fileno w \<and> fileno w < FD_SETSIZE)"

definition select_monitor :: "int option \<Rightarrow> 'a mworld_scheme \<Rightarrow> bool outcome" where
  "select_monitor timeout w =
     (case timeout of
        None \<Rightarrow>
          if \<not> selectable w then Raise ValueError
          else if queue w \<noteq> [] then Return True else Block
      | Some t \<Rightarrow>
          if TIMEOUT_MAX < t then Raise OverflowError
          else if t < 0 then Raise ValueError
          else if \<not> selectable w then Raise ValueError
          else Return (queue w \<noteq> []))"

subsection \<open>The methods of \<^verbatim>\<open>Monitor\<close>\<close>

definition filter_by :: "string \<Rightarrow> string option \<Rightarrow> 'a mworld_scheme \<Rightarrow> 'a mworld_scheme" where
  "filter_by subsystem device_type w =
     (let subsystem' = ensure_byte_string subsystem;
          device_type' = (case device_type of
                            None \<Rightarrow> None
                          | Some t \<Rightarrow> if t \<noteq> [] then Some (ensure_byte_string t) else Some t)
      in udev_monitor_filter_update
           (udev_monitor_filter_add_match_subsystem_devtype subsystem' device_type' w))"

definition filter_by_tag :: "string \<Rightarrow> 'a mworld_scheme \<Rightarrow> 'a mworld_scheme" where
  "filter_by_tag tag w =
     udev_monitor_filter_update (udev_monitor_filter_add_match_tag (ensure_byte_string tag) w)"

definition remove_filter :: "'a mworld_scheme \<Rightarrow> 'a mworld_scheme" where
  "remove_filter w = udev_monitor_filter_update (udev_monitor_filter_remove w)"

definition start :: "'a mworld_scheme \<Rightarrow> 'a mworld_scheme" where
  "start w =
     (if \<not> started (mon w)
      then (udev_monitor_enable_receiving w)\<lparr>mon := (mon w)\<lparr>started := True\<rparr>\<rparr>
      else w)"

definition set_receive_buffer_size :: "int \<Rightarrow> 'a mworld_scheme \<Rightarrow> 'a mworld_scheme" where
  "set_receive_buffer_size n w = udev_monitor_set_receive_buffer_size n w"

definition poll :: "int option \<Rightarrow> 'a mworld_scheme \<Rightarrow> device option outcome \<times> 'a mworld_scheme" where
  "poll timeout w =
     (case select_monitor timeout w of
        Raise e \<Rightarrow> (Raise e, w)
      | Block \<Rightarrow> (Block, w)
      | Return ready \<Rightarrow>
          if ready then
            (let (p, w') = udev_monitor_receive_device w
             in if p = 0 then (Raise EnvironmentError, w')
                else (Return (Some (Device (udev_context (mon w)) p)), w'))
          else (Return None, w))"

text \<open>The operations a caller can apply to a monitor, and a sequence of them.\<close>

datatype monitor_op =
    FilterBy string "string option"
  | FilterByTag string
  | RemoveFilter
  | Start
  | SetReceiveBufferSize int
  | Poll "int option"
  | Fileno
  | Inject nat

fun apply_op :: "monitor_op \<Rightarrow> 'a mworld_scheme \<Rightarrow> 'a mworld_scheme" where
  "apply_op (FilterBy s t) w = filter_by s t w"
| "apply_op (FilterByTag t) w = filter_by_tag t w"
| "apply_op RemoveFilter w = remove_filter w"
| "apply_op Start w = start w"
| "apply_op (SetReceiveBufferSize n) w = set_receive_buffer_size n w"
| "apply_op (Poll timeout) w = snd (poll timeout w)"
| "apply_op Fileno w = w"
| "apply_op (Inject p) w = inject p w"

definition apply_ops :: "monitor_op list \<Rightarrow> 'a mworld_scheme \<Rightarrow> 'a mworld_scheme" where
  "apply_ops ops w = fold apply_op ops w"

section \<open>The observer thread\<close>

text \<open>
  \<^verbatim>\<open>MonitorObserver\<close> subclasses \<^verbatim>\<open>threading.Thread\<close>. The thread is
  \<open>Initial\<close> until \<^verbatim>\<open>Thread.start()\<close>, \<open>Alive\<close> while \<^verbatim>\<open>run\<close> executes, and
  \<open>Finished\<close> afterwards, with the exception that ended \<^verbatim>\<open>run\<close>, if any.
  A method of the observer is called by the observer thread itself or by any other
  thread.
\<close>

datatype thread_state = Initial | Alive | Finished "exn option"

datatype caller = ObserverThread | ForeignThread

text \<open>
  The callback is code of the caller. What it does to the observer is one of: nothing,
  a call of \<^verbatim>\<open>send_stop()\<close>, a call of \<^verbatim>\<open>stop()\<close>, or an exception of its own.
\<close>

datatype reaction = CbReturn | CbSendStop | CbStop | CbRaise

text \<open>
  The world of one observer: the monitor it watches and the socket behind it, the
  attributes \<^verbatim>\<open>__init__\<close> sets, the state of the thread, and the pipe
  \<^verbatim>\<open>os.pipe()\<close> created. \<open>source_open\<close> and \<open>sink_open\<close> say whether the read
  and the write end of the pipe are open descriptors, \<open>pipe_bytes\<close> counts the bytes
  in the pipe. \<open>pipes_created\<close>, \<open>bytes_written\<close>, \<open>sink_closes\<close> and
  \<open>source_closes\<close> count the system calls made, and \<open>invoked\<close> lists the devices
  the callback was called with, oldest first: these five are history, read by no code.
\<close>

record world = mworld +
  callback :: "device \<Rightarrow> reaction"
  daemon :: bool
  stop_event_source :: int
  stop_event_sink :: "int option"
  thread :: thread_state
  source_open :: bool
  sink_open :: bool
  pipe_bytes :: nat
  pipes_created :: nat
  bytes_written :: nat
  sink_closes :: nat
  source_closes :: nat
  invoked :: "device list"

text \<open>
  \<^verbatim>\<open>MonitorObserver.__init__(monitor, callback)\<close>. The pair \<open>pipe_fds\<close> is what
  \<^verbatim>\<open>os.pipe()\<close> returns. \<open>observer_world\<close> is the world once the constructor has
  run to its end: the monitor as it was, the thread not started, both ends of the
  pipe open.
\<close>

definition observer_world :: "mworld \<Rightarrow> (device \<Rightarrow> reaction) \<Rightarrow> int \<times> int \<Rightarrow> world" where
  "observer_world mw f pipe_fds =
     \<lparr>mon = mon mw, fd = fd mw, receiving = receiving mw, queue = queue mw,
      delivered = delivered mw, enable_calls = enable_calls mw,
      receive_calls = receive_calls mw,
      subsystem_matches = subsystem_matches mw, tag_matches = tag_matches mw,
      filter_updates = filter_updates mw,
      receive_buffer_size = receive_buffer_size mw,
      callback = f, daemon = True,
      stop_event_source = fst pipe_fds, stop_event_sink = Some (snd pipe_fds),
      thread = Initial, source_open = True, sink_open = True, pipe_bytes = 0,
      pipes_created = 1, bytes_written = 0, sink_closes = 0, source_closes = 0,
      invoked = []\<rparr>"

definition MonitorObserver_init ::
  "mworld \<Rightarrow> (device \<Rightarrow> reaction) option \<Rightarrow> int \<times> int \<Rightarrow> world outcome" where
  "MonitorObserver_init mw cb pipe_fds =
     (case cb of
        None \<Rightarrow> Raise ValueError
      | Some f \<Rightarrow> Return (observer_world mw f pipe_fds))"

subsection \<open>System calls on the pipe\<close>

text \<open>
  \<^verbatim>\<open>os.write(sink, b'\x01')\<close>: \<^verbatim>\<open>EBADF\<close> on a closed descriptor, \<^verbatim>\<open>EPIPE\<close>
  when the read end is closed; otherwise one byte goes into the pipe.
  \<^verbatim>\<open>os.close\<close>: \<^verbatim>\<open>EBADF\<close> on a closed descriptor.
\<close>

definition os_write_sink :: "world \<Rightarrow> nat outcome \<times> world" where
  "os_write_sink w =
     (if \<not> sink_open w then (Raise OSError, w)
      else if \<not> source_open w then (Raise OSError, w)
      else (Return 1, w\<lparr>pipe_bytes := Suc (pipe_bytes w),
                          bytes_written := Suc (bytes_written w)\<rparr>))"

definition os_close_sink :: "world \<Rightarrow> unit outcome \<times> world" where
  "os_close_sink w =
     (if \<not> sink_open w then (Raise OSError, w)
      else (Return (), w\<lparr>sink_open := False, sink_closes := Suc (sink_closes w)\<rparr>))"

definition os_close_source :: "world \<Rightarrow> unit outcome \<times> world" where
  "os_close_source w =
     (if \<not> source_open w then (Raise OSError, w)
      else (Return (), w\<lparr>source_open := False, source_closes := Suc (source_closes w)\<rparr>))"

text \<open>
  The read end is reported by \<^verbatim>\<open>epoll\<close> (level-triggered) while it is open and
  either holds a byte or has lost its writer.
\<close>

definition stop_ready :: "world \<Rightarrow> bool" where
  "stop_ready w = (source_open w \<and> (0 < pipe_bytes w \<or> \<not> sink_open w))"

subsection \<open>\<^verbatim>\<open>send_stop\<close>, \<^verbatim>\<open>join\<close> and \<^verbatim>\<open>stop\<close>\<close>

text \<open>
  \<^verbatim>\<open>try: os.write(...) finally: os.close(...); self._stop_event_sink = None\<close>:
  the \<^verbatim>\<open>finally\<close> block runs whatever the write did; an exception of
  \<^verbatim>\<open>os.close\<close> leaves the attribute as it is and replaces the one of the write.
\<close>

definition send_stop :: "world \<Rightarrow> unit outcome \<times> world" where
  "send_stop w =
     (case stop_event_sink w of
        None \<Rightarrow> (Return (), w)
      | Some sink \<Rightarrow>
          (let (written, w1) = os_write_sink w
           in case os_close_sink w1 of
                (Raise e, w2) \<Rightarrow> (Raise e, w2)
              | (Block, w2) \<Rightarrow> (Block, w2)
              | (Return u, w2) \<Rightarrow>
                  (let w3 = w2\<lparr>stop_event_sink := None\<rparr>
                   in case written of
                        Raise e \<Rightarrow> (Raise e, w3)
                      | Block \<Rightarrow> (Block, w3)
                      | Return n \<Rightarrow> (Return (), w3))))"

text \<open>
  \<^verbatim>\<open>threading.Thread.join()\<close>: \<^verbatim>\<open>RuntimeError\<close> when the thread has not been
  started and when a thread joins itself; otherwise the call returns once the thread
  has finished.
\<close>

definition join :: "caller \<Rightarrow> world \<Rightarrow> unit outcome" where
  "join c w =
     (if thread w = Initial then Raise RuntimeError
      else if c = ObserverThread then Raise RuntimeError
      else (case thread w of Finished e \<Rightarrow> Return () | _ \<Rightarrow> Block))"

definition stop :: "caller \<Rightarrow> world \<Rightarrow> unit outcome \<times> world" where
  "stop c w =
     (case send_stop w of
        (Raise e, w1) \<Rightarrow> (Raise e, w1)
      | (Block, w1) \<Rightarrow> (Block, w1)
      | (Return u, w1) \<Rightarrow>
          (case join c w1 of
             Raise e \<Rightarrow> if e = RuntimeError then (Return (), w1) else (Raise e, w1)
           | Block \<Rightarrow> (Block, w1)
           | Return v \<Rightarrow> (Return (), w1)))"

subsection \<open>\<^verbatim>\<open>run\<close>\<close>

text \<open>\<^verbatim>\<open>self._callback(device)\<close>, in the observer thread.\<close>

definition call_callback :: "device \<Rightarrow> world \<Rightarrow> unit outcome \<times> world" where
  "call_callback d w =
     (let w1 = w\<lparr>invoked := invoked w @ [d]\<rparr>
      in case callback w d of
           CbReturn \<Rightarrow> (Return (), w1)
         | CbSendStop \<Rightarrow> send_stop w1
         | CbStop \<Rightarrow> stop ObserverThread w1
         | CbRaise \<Rightarrow> (Raise CallbackError, w1))"

text \<open>
  The body of \<^verbatim>\<open>for fd, _ in notifier.poll():\<close> for one descriptor.
  \<open>Continue\<close>: the body came to its end and the loop goes on; \<open>Returned\<close>:
  \<^verbatim>\<open>run\<close> returned; \<open>Raised\<close>: an exception left \<^verbatim>\<open>run\<close>; \<open>Stuck\<close>: a
  call inside never returned.
\<close>

datatype flow = Continue | Returned | Raised exn | Stuck

definition for_body :: "int \<Rightarrow> world \<Rightarrow> flow \<times> world" where
  "for_body ready w =
     (if ready = stop_event_source w then
        (case os_close_source w of
           (Raise e, w1) \<Rightarrow> (Raised e, w1)
         | (Block, w1) \<Rightarrow> (Stuck, w1)
         | (Return u, w1) \<Rightarrow> (Returned, w1))
      else
        (case poll (Some 0) w of
           (Raise e, w1) \<Rightarrow> (Raised e, w1)
         | (Block, w1) \<Rightarrow> (Stuck, w1)
         | (Return None, w1) \<Rightarrow> (Continue, w1)
         | (Return (Some device), w1) \<Rightarrow>
             (case call_callback device w1 of
                (Raise e, w2) \<Rightarrow> (Raised e, w2)
              | (Block, w2) \<Rightarrow> (Stuck, w2)
              | (Return u, w2) \<Rightarrow> (Continue, w2))))"

text \<open>
  The \<^verbatim>\<open>for\<close> loop over the descriptors one call of \<^verbatim>\<open>notifier.poll()\<close>
  returned, in the order of the list. \<open>Continue\<close>: the list is exhausted and the
  \<^verbatim>\<open>while True\<close> loop goes round again.
\<close>

fun for_fds :: "int list \<Rightarrow> world \<Rightarrow> flow \<times> world" where
  "for_fds [] w = (Continue, w)"
| "for_fds (ready # fds) w =
     (case for_body ready w of
        (Continue, w1) \<Rightarrow> for_fds fds w1
      | (Returned, w1) \<Rightarrow> (Returned, w1)
      | (Raised e, w1) \<Rightarrow> (Raised e, w1)
      | (Stuck, w1) \<Rightarrow> (Stuck, w1))"

text \<open>
  The statements of \<^verbatim>\<open>run\<close> before the loop: \<^verbatim>\<open>self.monitor.start()\<close>, then the
  two \<^verbatim>\<open>notifier.register\<close> calls; registering a closed descriptor fails with
  \<^verbatim>\<open>EBADF\<close>.
\<close>

definition run_setup :: "world \<Rightarrow> unit outcome \<times> world" where
  "run_setup w =
     (let w1 = start w
      in if \<not> source_open w1 then (Raise OSError, w1) else (Return (), w1))"

text \<open>
  The \<^verbatim>\<open>while True\<close> loop, given what the successive calls of \<^verbatim>\<open>notifier.poll()\<close>
  return. When the list is used up the next \<^verbatim>\<open>notifier.poll()\<close> never returns.
\<close>

fun loop :: "int list list \<Rightarrow> world \<Rightarrow> unit outcome \<times> world" where
  "loop [] w = (Block, w)"
| "loop (fds # wakes) w =
     (case for_fds fds w of
        (Continue, w1) \<Rightarrow> loop wakes w1
      | (Returned, w1) \<Rightarrow> (Return (), w1)
      | (Raised e, w1) \<Rightarrow> (Raise e, w1)
      | (Stuck, w1) \<Rightarrow> (Block, w1))"

definition run :: "int list list \<Rightarrow> world \<Rightarrow> unit outcome \<times> world" where
  "run wakes w =
     (case run_setup w of
        (Return u, w1) \<Rightarrow> loop wakes w1
      | (Raise e, w1) \<Rightarrow> (Raise e, w1)
      | (Block, w1) \<Rightarrow> (Block, w1))"

subsection \<open>The observer thread and its environment, step by step\<close>

text \<open>
  What can happen to the world of an observer, one event at a time:
  \<^item> \<open>Arrive p\<close>: the kernel queues a datagram on the socket;
  \<^item> \<open>ThreadStart\<close>: \<^verbatim>\<open>Thread.start()\<close>; a thread can be started once, and the new
    thread executes \<^verbatim>\<open>run\<close> up to its first \<^verbatim>\<open>notifier.poll()\<close>;
  \<^item> \<open>Wake fds\<close>: \<^verbatim>\<open>notifier.poll()\<close> returns \<open>fds\<close> in the observer thread, which
    executes one round of the \<^verbatim>\<open>while True\<close> loop; \<^verbatim>\<open>epoll\<close> reports the read end
    of the pipe only when it is ready;
  \<^item> \<open>SendStop\<close>: another thread calls \<^verbatim>\<open>send_stop()\<close>;
  \<^item> \<open>Stop\<close>: another thread calls \<^verbatim>\<open>stop()\<close>; what it does to the world is done
    when it enters \<^verbatim>\<open>join\<close>.
\<close>

datatype event = Arrive nat | ThreadStart | Wake "int list" | SendStop | Stop

definition finish :: "flow \<Rightarrow> world \<Rightarrow> world" where
  "finish f w =
     (case f of
        Continue \<Rightarrow> w
      | Returned \<Rightarrow> w\<lparr>thread := Finished None\<rparr>
      | Raised e \<Rightarrow> w\<lparr>thread := Finished (Some e)\<rparr>
      | Stuck \<Rightarrow> w)"

fun step :: "event \<Rightarrow> world \<Rightarrow> world" where
  "step (Arrive p) w = inject p w"
| "step ThreadStart w =
     (if thread w \<noteq> Initial then w
      else (case run_setup (w\<lparr>thread := Alive\<rparr>) of
              (Return u, w1) \<Rightarrow> w1
            | (Raise e, w1) \<Rightarrow> w1\<lparr>thread := Finished (Some e)\<rparr>
            | (Block, w1) \<Rightarrow> w1))"
| "step (Wake fds) w =
     (if thread w = Alive \<and> (stop_event_source w \<in> set fds \<longrightarrow> stop_ready w)
      then (case for_fds fds w of (f, w1) \<Rightarrow> finish f w1)
      else w)"
| "step SendStop w = snd (send_stop w)"
| "step Stop w = snd (stop ForeignThread w)"

definition exec :: "event list \<Rightarrow> world \<Rightarrow> world" where
  "exec tr w = fold step tr w"

section \<open>Properties of worlds\<close>

text \<open>
  The state behind a handle that \<^verbatim>\<open>udev_monitor_new_from_netlink\<close> has just
  returned, with the \<^verbatim>\<open>Monitor\<close> object \<^verbatim>\<open>from_netlink\<close> wraps around it: nothing
  is enabled, queued or filtered yet.
\<close>

definition fresh_mworld :: "nat \<Rightarrow> nat \<Rightarrow> int \<Rightarrow> mworld" where
  "fresh_mworld ctx monitor_p n =
     \<lparr>mon = Monitor_init ctx monitor_p, fd = n, receiving = False, queue = [],
      delivered = [], enable_calls = 0, receive_calls = 0, subsystem_matches = [],
      tag_matches = [], filter_updates = 0, receive_buffer_size = None\<rparr>"

text \<open>
  The discipline of the write end: one pipe exists; as long as the attribute
  \<^verbatim>\<open>_stop_event_sink\<close> holds a descriptor, the write end is open and nothing has
  been written or closed; once the attribute is \<^verbatim>\<open>None\<close>, the write end is closed,
  closed once, and one byte has been written, which is still in the pipe.
\<close>

definition sink_inv :: "world \<Rightarrow> bool" where
  "sink_inv w =
     (pipes_created w = 1 \<and>
      (case stop_event_sink w of
         Some s \<Rightarrow> sink_open w \<and> pipe_bytes w = 0 \<and> bytes_written w = 0 \<and> sink_closes w = 0
       | None \<Rightarrow> \<not> sink_open w \<and> pipe_bytes w = 1 \<and> bytes_written w = 1 \<and> sink_closes w = 1))"

text \<open>
  The discipline of both ends: the read end is closed only by a thread that has since
  returned from \<^verbatim>\<open>run\<close>, and only after the write end was closed.
\<close>

definition pipe_inv :: "world \<Rightarrow> bool" where
  "pipe_inv w =
     (sink_inv w \<and>
      (\<not> source_open w \<longrightarrow> thread w = Finished None \<and> stop_event_sink w = None))"

text \<open>
  The devices of the datagrams queued so far, in the order of their arrival, and the
  two relations between them and the calls of the callback: the callback has seen an
  initial segment of them; the callback has seen exactly those no longer in the queue.
\<close>

definition delivered_devices :: "world \<Rightarrow> device list" where
  "delivered_devices w = map (Device (udev_context (mon w))) (delivered w)"

definition prefix_inv :: "world \<Rightarrow> bool" where
  "prefix_inv w = prefix (invoked w) (delivered_devices w)"

definition order_inv :: "world \<Rightarrow> bool" where
  "order_inv w =
     (delivered_devices w = invoked w @ map (Device (udev_context (mon w))) (queue w))"

definition trace_inv :: "world \<Rightarrow> bool" where
  "trace_inv w =
     (if thread w = Finished (Some EnvironmentError) then prefix_inv w else order_inv w)"

text \<open>
  Two callbacks: one that returns at once, so that \<open>invoked\<close> is the log of what it
  was given, and one that calls \<^verbatim>\<open>stop()\<close> on its observer for every device. And a
  world to run them in: an observer with the first callback on a monitor that
  \<^verbatim>\<open>from_netlink\<close> has just created, context \<open>1\<close>, handle \<open>2\<close>, socket on
  descriptor \<open>5\<close>, pipe on the descriptors \<open>3\<close> and \<open>4\<close>.
\<close>

definition logging_callback :: "device \<Rightarrow> reaction" where
  "logging_callback d = CbReturn"

definition stopping_callback :: "device \<Rightarrow> reaction" where
  "stopping_callback d = CbStop"

definition demo_world :: world where
  "demo_world = observer_world (fresh_mworld 1 2 5) logging_callback (3, 4)"

section \<open>Lemmas\<close>


lemmas monitor_defs = fresh_mworld_def Monitor_init_def start_def udev_monitor_enable_receiving_def
  apply_ops_def filter_by_def filter_by_tag_def remove_filter_def set_receive_buffer_size_def
  inject_def udev_monitor_filter_update_def udev_monitor_filter_add_match_subsystem_devtype_def
  udev_monitor_filter_add_match_tag_def udev_monitor_filter_remove_def
  udev_monitor_set_receive_buffer_size_def Device_def selectable_def
  fileno_def udev_monitor_get_fd_def FD_SETSIZE_def TIMEOUT_MAX_def

lemma poll_eq:
  "poll timeout w =
     (if (\<exists>t. timeout = Some t \<and> TIMEOUT_MAX < t) then (Raise OverflowError, w)
      else if (\<exists>t. timeout = Some t \<and> t < 0) \<or> \<not> selectable w then (Raise ValueError, w)
      else (case queue w of
              [] \<Rightarrow> (if timeout = None then Block else Return None, w)
            | p # ps \<Rightarrow> (if p = 0 then Raise EnvironmentError
                          else Return (Some (Device (udev_context (mon w)) p)),
                         w\<lparr>queue := ps, receive_calls := Suc (receive_calls w)\<rparr>)))"
  by (simp add: poll_def select_monitor_def udev_monitor_receive_device_def
           split: option.splits list.splits)

lemma start_started: "started (mon (start w))"
  by (simp add: start_def udev_monitor_enable_receiving_def)

lemma start_noop: "started (mon w) \<Longrightarrow> start w = w"
  by (simp add: start_def)

lemma start_start: "start (start w) = start w"
  by (simp add: start_noop start_started)

lemma start_pow: "0 < n \<Longrightarrow> (start ^^ n) w = start w"
proof (induction n)
  case 0 then show ?case by simp
next
  case (Suc n)
  show ?case
  proof (cases n)
    case 0 then show ?thesis by simp
  next
    case (Suc k)
    then have "(start ^^ n) w = start w" using Suc.IH by simp
    then show ?thesis by (simp add: start_start)
  qed
qed

lemma poll0:
  "poll (Some 0) w =
     (if \<not> selectable w then (Raise ValueError, w)
      else (case queue w of
              [] \<Rightarrow> (Return None, w)
            | p # ps \<Rightarrow> (if p = 0 then Raise EnvironmentError
                          else Return (Some (Device (udev_context (mon w)) p)),
                         w\<lparr>queue := ps, receive_calls := Suc (receive_calls w)\<rparr>)))"
  by (simp add: poll_eq TIMEOUT_MAX_def)

lemma send_stop_None: "stop_event_sink w = None \<Longrightarrow> send_stop w = (Return (), w)"
  by (simp add: send_stop_def)

lemma send_stop_Some:
  "stop_event_sink w = Some s \<Longrightarrow> sink_open w \<Longrightarrow> source_open w \<Longrightarrow>
   send_stop w =
     (Return (), w\<lparr>pipe_bytes := Suc (pipe_bytes w), bytes_written := Suc (bytes_written w),
                    sink_open := False, sink_closes := Suc (sink_closes w),
                    stop_event_sink := None\<rparr>)"
  by (simp add: send_stop_def os_write_sink_def os_close_sink_def)

lemma send_stop_frame:
  "thread (snd (send_stop w)) = thread w"
  "invoked (snd (send_stop w)) = invoked w"
  "stop_event_source (snd (send_stop w)) = stop_event_source w"
  "callback (snd (send_stop w)) = callback w"
  "queue (snd (send_stop w)) = queue w"
  "delivered (snd (send_stop w)) = delivered w"
  "mon (snd (send_stop w)) = mon w"
  "source_open (snd (send_stop w)) = source_open w"
  "pipes_created (snd (send_stop w)) = pipes_created w"
  "fd (snd (send_stop w)) = fd w"
  by (auto simp: send_stop_def os_write_sink_def os_close_sink_def Let_def
           split: option.splits outcome.splits prod.splits if_splits)

lemma stop_snd: "snd (stop c w) = snd (send_stop w)"
  by (auto simp: stop_def split: prod.splits outcome.splits)

lemma stop_frame:
  "thread (snd (stop c w)) = thread w"
  "invoked (snd (stop c w)) = invoked w"
  "stop_event_source (snd (stop c w)) = stop_event_source w"
  "callback (snd (stop c w)) = callback w"
  "queue (snd (stop c w)) = queue w"
  "delivered (snd (stop c w)) = delivered w"
  "mon (snd (stop c w)) = mon w"
  "source_open (snd (stop c w)) = source_open w"
  "pipes_created (snd (stop c w)) = pipes_created w"
  "fd (snd (stop c w)) = fd w"
  by (simp_all add: stop_snd send_stop_frame)

lemma call_callback_frame:
  assumes "call_callback d w = (r, w')"
  shows "thread w' = thread w" "invoked w' = invoked w @ [d]"
    "stop_event_source w' = stop_event_source w" "callback w' = callback w"
    "queue w' = queue w" "delivered w' = delivered w" "mon w' = mon w"
    "source_open w' = source_open w" "pipes_created w' = pipes_created w"
    "fd w' = fd w"
proof -
  let ?w1 = "w\<lparr>invoked := invoked w @ [d]\<rparr>"
  have "w' = ?w1 \<or> w' = snd (send_stop ?w1) \<or> w' = snd (stop ObserverThread ?w1)"
    using assms by (auto simp: call_callback_def Let_def split: reaction.splits)
  then show "thread w' = thread w" "invoked w' = invoked w @ [d]"
    "stop_event_source w' = stop_event_source w" "callback w' = callback w"
    "queue w' = queue w" "delivered w' = delivered w" "mon w' = mon w"
    "source_open w' = source_open w" "pipes_created w' = pipes_created w"
    "fd w' = fd w"
    by (auto simp: send_stop_frame stop_frame)
qed

lemma for_body_stop:
  "for_body (stop_event_source w) w =
     (if source_open w
      then (Returned, w\<lparr>source_open := False, source_closes := Suc (source_closes w)\<rparr>)
      else (Raised OSError, w))"
  by (simp add: for_body_def os_close_source_def)

lemma selectable_upd [simp]:
  "selectable (w\<lparr>queue := q, receive_calls := n\<rparr>) = selectable w"
  "selectable (w\<lparr>invoked := i\<rparr>) = selectable w"
  "selectable (w\<lparr>thread := t\<rparr>) = selectable w"
  by (simp_all add: selectable_def fileno_def udev_monitor_get_fd_def)

lemma selectable_fd: "fd w' = fd w \<Longrightarrow> selectable w' = selectable w"
  by (simp add: selectable_def fileno_def udev_monitor_get_fd_def)

lemma for_body_unselectable:
  "x \<noteq> stop_event_source w \<Longrightarrow> \<not> selectable w \<Longrightarrow> for_body x w = (Raised ValueError, w)"
  by (simp add: for_body_def poll0)

lemma for_body_other:
  "x \<noteq> stop_event_source w \<Longrightarrow> selectable w \<Longrightarrow>
   for_body x w =
     (case queue w of
        [] \<Rightarrow> (Continue, w)
      | p # ps \<Rightarrow>
          if p = 0
          then (Raised EnvironmentError, w\<lparr>queue := ps, receive_calls := Suc (receive_calls w)\<rparr>)
          else (case call_callback (Device (udev_context (mon w)) p)
                       (w\<lparr>queue := ps, receive_calls := Suc (receive_calls w)\<rparr>) of
                  (Raise e, w2) \<Rightarrow> (Raised e, w2)
                | (Block, w2) \<Rightarrow> (Stuck, w2)
                | (Return u, w2) \<Rightarrow> (Continue, w2)))"
  by (simp add: for_body_def poll0 split: list.splits)

lemma for_body_frame:
  assumes "for_body x w = (f, w')"
  shows "thread w' = thread w \<and> stop_event_source w' = stop_event_source w \<and>
         callback w' = callback w \<and> mon w' = mon w \<and> pipes_created w' = pipes_created w \<and>
         fd w' = fd w"
proof (cases "x = stop_event_source w")
  case True
  with assms show ?thesis by (auto simp: for_body_stop split: if_splits)
next
  case False
  show ?thesis
  proof (cases "selectable w")
    case False
    with \<open>x \<noteq> stop_event_source w\<close> assms show ?thesis
      by (simp add: for_body_unselectable)
  next
    case True
    with \<open>x \<noteq> stop_event_source w\<close> assms show ?thesis
      by (auto simp: for_body_other split: list.splits if_splits prod.splits outcome.splits
               dest: call_callback_frame)
  qed
qed

lemma for_fds_frame:
  "for_fds fds w = (f, w') \<Longrightarrow>
   thread w' = thread w \<and> stop_event_source w' = stop_event_source w \<and>
   callback w' = callback w \<and> mon w' = mon w \<and> pipes_created w' = pipes_created w \<and>
   fd w' = fd w"
proof (induction fds arbitrary: w)
  case Nil
  then show ?case by simp
next
  case (Cons x fds)
  obtain f1 w1 where b: "for_body x w = (f1, w1)" by (cases "for_body x w")
  note fr = for_body_frame[OF b]
  show ?case
  proof (cases f1)
    case Continue
    with b Cons.prems have "for_fds fds w1 = (f, w')" by simp
    from Cons.IH[OF this] fr show ?thesis by simp
  qed (use b Cons.prems fr in auto)
qed

lemma sink_inv_upd [simp]:
  "sink_inv (w\<lparr>invoked := i\<rparr>) = sink_inv w"
  "sink_inv (w\<lparr>queue := q, receive_calls := n\<rparr>) = sink_inv w"
  "sink_inv (w\<lparr>thread := t\<rparr>) = sink_inv w"
  by (simp_all add: sink_inv_def cong: option.case_cong)

lemma send_stop_sink_inv:
  assumes "sink_inv w" "stop_event_sink w \<noteq> None \<longrightarrow> source_open w"
  shows "fst (send_stop w) = Return () \<and> sink_inv (snd (send_stop w)) \<and>
         stop_event_sink (snd (send_stop w)) = None"
proof (cases "stop_event_sink w")
  case None
  then show ?thesis using assms by (simp add: send_stop_None)
next
  case (Some s)
  with assms have "sink_open w" "source_open w" by (auto simp: sink_inv_def)
  from send_stop_Some[OF Some this] Some assms(1) show ?thesis
    by (simp add: sink_inv_def)
qed

lemma stop_observer:
  "stop ObserverThread w = (case send_stop w of (Return u, w1) \<Rightarrow> (Return (), w1) | r \<Rightarrow> r)"
  by (auto simp: stop_def join_def split: prod.splits outcome.splits)

lemma call_callback_sink_inv:
  assumes "call_callback d w = (r, w')" "sink_inv w" "stop_event_sink w \<noteq> None \<longrightarrow> source_open w"
  shows "sink_inv w' \<and> (stop_event_sink w = None \<longrightarrow> stop_event_sink w' = None) \<and>
         (r = Return () \<or> (r = Raise CallbackError \<and> callback w d = CbRaise))"
proof -
  let ?w1 = "w\<lparr>invoked := invoked w @ [d]\<rparr>"
  have 1: "sink_inv ?w1" "stop_event_sink ?w1 \<noteq> None \<longrightarrow> source_open ?w1"
    using assms by auto
  note ss = send_stop_sink_inv[OF 1]
  show ?thesis
  proof (cases "callback w d")
    case CbReturn
    with assms 1 show ?thesis by (auto simp: call_callback_def)
  next
    case CbSendStop
    with assms ss show ?thesis by (auto simp: call_callback_def)
  next
    case CbStop
    with assms ss show ?thesis
      by (auto simp: call_callback_def stop_observer split: prod.splits outcome.splits)
  next
    case CbRaise
    with assms 1 show ?thesis by (auto simp: call_callback_def)
  qed
qed

lemma for_body_sink_inv:
  assumes "for_body x w = (f, w')" "sink_inv w" "source_open w"
      and "x = stop_event_source w \<longrightarrow> stop_event_sink w = None"
  shows "sink_inv w' \<and> (stop_event_sink w = None \<longrightarrow> stop_event_sink w' = None) \<and>
         (f = Returned \<longrightarrow> \<not> source_open w' \<and> stop_event_sink w' = None) \<and>
         (f \<noteq> Returned \<longrightarrow> source_open w') \<and> f \<noteq> Stuck"
proof (cases "x = stop_event_source w")
  case True
  with assms show ?thesis by (auto simp: for_body_stop sink_inv_def)
next
  case False
  show ?thesis
  proof (cases "selectable w")
    case unsel: False
    with False assms show ?thesis by (auto simp: for_body_unselectable)
  next
    case sel: True
    show ?thesis
    proof (cases "queue w")
      case Nil
      with False sel assms show ?thesis by (auto simp: for_body_other)
    next
      case (Cons p ps)
      let ?w1 = "w\<lparr>queue := ps, receive_calls := Suc (receive_calls w)\<rparr>"
      have 1: "sink_inv ?w1" "stop_event_sink ?w1 \<noteq> None \<longrightarrow> source_open ?w1"
        using assms by auto
      show ?thesis
      proof (cases "p = 0")
        case True
        with False sel Cons assms 1 show ?thesis by (auto simp: for_body_other)
      next
        case nz: False
        obtain r w2 where cc: "call_callback (Device (udev_context (mon w)) p) ?w1 = (r, w2)"
          by (cases "call_callback (Device (udev_context (mon w)) p) ?w1")
        from call_callback_sink_inv[OF cc 1] call_callback_frame(8)[OF cc] assms(3)
        have "sink_inv w2" "stop_event_sink w = None \<longrightarrow> stop_event_sink w2 = None"
          "source_open w2" "r = Return () \<or> r = Raise CallbackError" by auto
        with False sel Cons nz cc assms(1) show ?thesis
          by (auto simp: for_body_other)
      qed
    qed
  qed
qed

lemma for_fds_sink_inv:
  "for_fds fds w = (f, w') \<Longrightarrow> sink_inv w \<Longrightarrow> source_open w \<Longrightarrow>
   (stop_event_source w \<in> set fds \<longrightarrow> stop_event_sink w = None) \<Longrightarrow>
   sink_inv w' \<and> (stop_event_sink w = None \<longrightarrow> stop_event_sink w' = None) \<and>
   (f = Returned \<longrightarrow> \<not> source_open w' \<and> stop_event_sink w' = None) \<and>
   (f \<noteq> Returned \<longrightarrow> source_open w') \<and> f \<noteq> Stuck"
proof (induction fds arbitrary: w)
  case Nil
  then show ?case by auto
next
  case (Cons x fds)
  obtain f1 w1 where b: "for_body x w = (f1, w1)" by (cases "for_body x w")
  from Cons.prems have "x = stop_event_source w \<longrightarrow> stop_event_sink w = None" by simp
  note bi = for_body_sink_inv[OF b Cons.prems(2,3) this]
  note fr = for_body_frame[OF b]
  show ?case
  proof (cases f1)
    case Continue
    with b Cons.prems have r: "for_fds fds w1 = (f, w')" by simp
    have "stop_event_source w1 \<in> set fds \<longrightarrow> stop_event_sink w1 = None"
      using Cons.prems(4) fr bi by auto
    from Cons.IH[OF r _ _ this] bi Continue show ?thesis by auto
  qed (use b Cons.prems(1) bi in auto)
qed

lemma pipe_inv_sink_source: "pipe_inv w \<Longrightarrow> stop_event_sink w \<noteq> None \<longrightarrow> source_open w"
  by (auto simp: pipe_inv_def)

lemma pipe_inv_inject: "pipe_inv w \<Longrightarrow> pipe_inv (inject p w)"
  by (simp add: pipe_inv_def sink_inv_def inject_def cong: option.case_cong)

lemma pipe_inv_send_stop: "pipe_inv w \<Longrightarrow> pipe_inv (snd (send_stop w))"
  using send_stop_sink_inv[of w] 
  by (auto simp: pipe_inv_def send_stop_frame)

lemma pipe_inv_thread_start: "pipe_inv w \<Longrightarrow> pipe_inv (step ThreadStart w)"
  by (auto simp: pipe_inv_def sink_inv_def run_setup_def start_def
                 udev_monitor_enable_receiving_def Let_def cong: option.case_cong)

lemma pipe_inv_wake:
  assumes "pipe_inv w" shows "pipe_inv (step (Wake fds) w)"
proof (cases "thread w = Alive \<and> (stop_event_source w \<in> set fds \<longrightarrow> stop_ready w)")
  case False
  then show ?thesis using assms by auto
next
  case True
  obtain f w1 where r: "for_fds fds w = (f, w1)" by (cases "for_fds fds w")
  from assms True have so: "source_open w" and si: "sink_inv w"
    by (auto simp: pipe_inv_def)
  from True si have "stop_event_source w \<in> set fds \<longrightarrow> stop_event_sink w = None"
    by (auto simp: stop_ready_def sink_inv_def split: option.splits)
  from for_fds_sink_inv[OF r si so this] 
  have "pipe_inv (finish f w1)"
    by (cases f) (auto simp: pipe_inv_def finish_def)
  with True r show ?thesis by simp
qed

lemma pipe_inv_step: "pipe_inv w \<Longrightarrow> pipe_inv (step ev w)"
proof (cases ev)
  case (Arrive p)
  assume "pipe_inv w" then show ?thesis using Arrive by (simp add: pipe_inv_inject)
next
  case ThreadStart
  assume "pipe_inv w" then show ?thesis using ThreadStart by (simp only: pipe_inv_thread_start)
next
  case (Wake fds)
  assume "pipe_inv w" then show ?thesis using Wake by (simp only: pipe_inv_wake)
next
  case SendStop
  assume "pipe_inv w" then show ?thesis using SendStop by (simp add: pipe_inv_send_stop)
next
  case Stop
  assume "pipe_inv w" then show ?thesis using Stop by (simp add: pipe_inv_send_stop stop_snd)
qed

lemma pipe_inv_exec: "pipe_inv w \<Longrightarrow> pipe_inv (exec tr w)"
  unfolding exec_def by (induction tr arbitrary: w) (auto simp: pipe_inv_step)

lemma pipe_inv_init: "pipe_inv (observer_world mw f fds)"
  by (simp add: observer_world_def pipe_inv_def sink_inv_def)

lemma sink_None_step:
  assumes "pipe_inv w" "stop_event_sink w = None"
  shows "stop_event_sink (step ev w) = None"
proof (cases ev)
  case (Arrive p)
  then show ?thesis using assms by (simp add: inject_def)
next
  case ThreadStart
  then show ?thesis using assms
    by (auto simp: run_setup_def start_def udev_monitor_enable_receiving_def Let_def)
next
  case (Wake fds)
  show ?thesis
  proof (cases "thread w = Alive \<and> (stop_event_source w \<in> set fds \<longrightarrow> stop_ready w)")
    case False
    then show ?thesis using assms Wake by auto
  next
    case True
    obtain f w1 where r: "for_fds fds w = (f, w1)" by (cases "for_fds fds w")
    from assms True have so: "source_open w" and si: "sink_inv w"
      by (auto simp: pipe_inv_def)
    from for_fds_sink_inv[OF r si so] assms(2)
    have "stop_event_sink (finish f w1) = None"
      by (cases f) (auto simp: finish_def)
    with True r Wake show ?thesis by simp
  qed
next
  case SendStop
  then show ?thesis using assms by (simp add: send_stop_None)
next
  case Stop
  then show ?thesis using assms by (simp add: stop_snd send_stop_None)
qed

lemma sink_None_exec:
  "pipe_inv w \<Longrightarrow> stop_event_sink w = None \<or> SendStop \<in> set tr \<or> Stop \<in> set tr \<Longrightarrow>
   stop_event_sink (exec tr w) = None"
proof (induction tr arbitrary: w)
  case Nil
  then show ?case by (simp add: exec_def)
next
  case (Cons ev tr)
  have pi: "pipe_inv (step ev w)" using Cons.prems(1) by (rule pipe_inv_step)
  have "stop_event_sink (step ev w) = None \<or> SendStop \<in> set tr \<or> Stop \<in> set tr"
  proof (cases "stop_event_sink w = None")
    case True
    then show ?thesis using sink_None_step[OF Cons.prems(1)] by simp
  next
    case False
    show ?thesis
    proof (cases "ev = SendStop \<or> ev = Stop")
      case True
      then show ?thesis
        using send_stop_sink_inv[of w] Cons.prems(1) pipe_inv_sink_source[of w]
        by (auto simp: stop_snd pipe_inv_def)
    next
      case False
      then show ?thesis using Cons.prems(2) \<open>stop_event_sink w \<noteq> None\<close> by auto
    qed
  qed
  from Cons.IH[OF pi this] show ?case by (simp add: exec_def)
qed

lemma order_prefix: "order_inv w \<Longrightarrow> prefix_inv w"
  by (simp add: order_inv_def prefix_inv_def)

lemma order_inv_cong:
  "mon w' = mon w \<Longrightarrow> delivered w' = delivered w \<Longrightarrow> invoked w' = invoked w \<Longrightarrow>
   queue w' = queue w \<Longrightarrow> order_inv w' = order_inv w"
  by (simp add: order_inv_def delivered_devices_def)

lemma prefix_inv_cong:
  "mon w' = mon w \<Longrightarrow> delivered w' = delivered w \<Longrightarrow> invoked w' = invoked w \<Longrightarrow>
   prefix_inv w' = prefix_inv w"
  by (simp add: prefix_inv_def delivered_devices_def)

lemma for_body_order:
  assumes "for_body x w = (f, w')" "order_inv w"
  shows "(f = Raised EnvironmentError \<longrightarrow> prefix_inv w') \<and>
         (f \<noteq> Raised EnvironmentError \<longrightarrow> order_inv w')"
proof (cases "x = stop_event_source w")
  case True
  with assms show ?thesis
    by (auto simp: for_body_stop order_inv_def prefix_inv_def delivered_devices_def
             split: if_splits)
next
  case False
  show ?thesis
  proof (cases "selectable w")
    case unsel: False
    with False assms show ?thesis by (auto simp: for_body_unselectable)
  next
    case sel: True
    show ?thesis
    proof (cases "queue w")
      case Nil
      with False sel assms show ?thesis by (auto simp: for_body_other)
    next
      case (Cons p ps)
      let ?w1 = "w\<lparr>queue := ps, receive_calls := Suc (receive_calls w)\<rparr>"
      let ?d = "Device (udev_context (mon w)) p"
      show ?thesis
      proof (cases "p = 0")
        case True
        with False sel Cons assms show ?thesis
          by (auto simp: for_body_other order_inv_def prefix_inv_def delivered_devices_def)
      next
        case nz: False
        obtain r w2 where cc: "call_callback ?d ?w1 = (r, w2)"
          by (cases "call_callback ?d ?w1")
        note fr = call_callback_frame[OF cc]
        have o2: "order_inv w2"
          using assms(2) Cons fr by (simp add: order_inv_def delivered_devices_def)
        from False sel Cons nz cc assms(1) have "w' = w2"
          by (auto simp: for_body_other split: outcome.splits)
        with o2 order_prefix[OF o2] show ?thesis by auto
      qed
    qed
  qed
qed

lemma for_fds_order:
  "for_fds fds w = (f, w') \<Longrightarrow> order_inv w \<Longrightarrow>
   (f = Raised EnvironmentError \<longrightarrow> prefix_inv w') \<and>
   (f \<noteq> Raised EnvironmentError \<longrightarrow> order_inv w')"
proof (induction fds arbitrary: w)
  case Nil
  then show ?case by auto
next
  case (Cons x fds)
  obtain f1 w1 where b: "for_body x w = (f1, w1)" by (cases "for_body x w")
  note bo = for_body_order[OF b Cons.prems(2)]
  show ?case
  proof (cases f1)
    case Continue
    with b Cons.prems have r: "for_fds fds w1 = (f, w')" by simp
    from bo Continue have "order_inv w1" by simp
    from Cons.IH[OF r this] show ?thesis .
  qed (use b Cons.prems(1) bo in auto)
qed

lemma trace_inv_step: assumes "trace_inv w" shows "trace_inv (step ev w)"
proof (cases ev)
  case (Arrive p)
  then show ?thesis using assms
    by (auto simp: trace_inv_def inject_def order_inv_def prefix_inv_def delivered_devices_def)
next
  case ThreadStart
  then show ?thesis using assms
    by (auto simp: trace_inv_def run_setup_def start_def udev_monitor_enable_receiving_def
                   Let_def order_inv_def delivered_devices_def)
next
  case (Wake fds)
  show ?thesis
  proof (cases "thread w = Alive \<and> (stop_event_source w \<in> set fds \<longrightarrow> stop_ready w)")
    case False
    then show ?thesis using assms Wake by auto
  next
    case True
    obtain f w1 where r: "for_fds fds w = (f, w1)" by (cases "for_fds fds w")
    from assms True have "order_inv w" by (simp add: trace_inv_def)
    note fo = for_fds_order[OF r this]
    from for_fds_frame[OF r] True have t: "thread w1 = Alive" by simp
    have pu: "\<And>t. prefix_inv (w1\<lparr>thread := t\<rparr>) = prefix_inv w1"
      by (rule prefix_inv_cong) simp_all
    have ou: "\<And>t. order_inv (w1\<lparr>thread := t\<rparr>) = order_inv w1"
      by (rule order_inv_cong) simp_all
    have "trace_inv (finish f w1)"
      using fo t by (cases f) (auto simp: finish_def trace_inv_def pu ou)
    with True r Wake show ?thesis by simp
  qed
next
  case SendStop
  have "trace_inv (snd (send_stop w)) = trace_inv w"
    unfolding trace_inv_def
    by (simp add: send_stop_frame order_inv_cong[of "snd (send_stop w)" w]
                  prefix_inv_cong[of "snd (send_stop w)" w])
  then show ?thesis using assms SendStop by simp
next
  case Stop
  have "trace_inv (snd (send_stop w)) = trace_inv w"
    unfolding trace_inv_def
    by (simp add: send_stop_frame order_inv_cong[of "snd (send_stop w)" w]
                  prefix_inv_cong[of "snd (send_stop w)" w])
  then show ?thesis using assms Stop by (simp add: stop_snd)
qed

lemma trace_inv_exec: "trace_inv w \<Longrightarrow> trace_inv (exec tr w)"
  unfolding exec_def by (induction tr arbitrary: w) (auto simp: trace_inv_step)

lemma trace_inv_init: "delivered mw = queue mw \<Longrightarrow> trace_inv (observer_world mw f fds)"
  by (simp add: trace_inv_def order_inv_def delivered_devices_def observer_world_def)






lemma stop_raise_from_send_stop:
  "fst (stop c w) = Raise e \<Longrightarrow> fst (send_stop w) = Raise e"
  by (auto simp: stop_def join_def split: prod.splits outcome.splits if_splits thread_state.splits)

lemma stop_no_join:
  assumes "thread w = Initial \<or> c = ObserverThread"
  shows "stop c w = (case send_stop w of (Return u, w1) \<Rightarrow> (Return (), w1) | r \<Rightarrow> r)"
proof -
  obtain r w1 where s: "send_stop w = (r, w1)" by (cases "send_stop w")
  then have "thread w1 = thread w" using send_stop_frame(1)[of w] by simp
  with assms have "join c w1 = Raise RuntimeError" by (auto simp: join_def)
  with s show ?thesis by (auto simp: stop_def split: outcome.splits)
qed

lemma for_fds_append:
  "for_fds (xs @ ys) w =
     (case for_fds xs w of (f, w1) \<Rightarrow> if f = Continue then for_fds ys w1 else (f, w1))"
proof (induction xs arbitrary: w)
  case Nil
  then show ?case by simp
next
  case (Cons x xs)
  obtain f1 w1 where b: "for_body x w = (f1, w1)" by (cases "for_body x w")
  show ?case using b Cons.IH[of w1] by (cases f1) auto
qed

lemma for_body_drain:
  assumes "x \<noteq> stop_event_source w" "selectable w" "queue w = p # ps" "p \<noteq> 0"
      and "for_body x w = (f, w')"
  shows "invoked w' = invoked w @ [Device (udev_context (mon w)) p] \<and> queue w' = ps"
proof -
  let ?w1 = "w\<lparr>queue := ps, receive_calls := Suc (receive_calls w)\<rparr>"
  let ?d = "Device (udev_context (mon w)) p"
  obtain r w2 where cc: "call_callback ?d ?w1 = (r, w2)" by (cases "call_callback ?d ?w1")
  from assms cc have "w' = w2" by (auto simp: for_body_other split: outcome.splits)
  with call_callback_frame(2,5)[OF cc] show ?thesis by simp
qed

lemma for_body_nofail:
  assumes "for_body x w = (f, w')" "x \<noteq> stop_event_source w" "sink_inv w"
      and "stop_event_sink w \<noteq> None \<longrightarrow> source_open w"
      and "0 \<notin> set (queue w)" "CbRaise \<notin> range (callback w)" "selectable w"
  shows "f = Continue \<and> set (queue w') \<subseteq> set (queue w)"
proof (cases "queue w")
  case Nil
  with assms show ?thesis by (auto simp: for_body_other)
next
  case (Cons p ps)
  let ?w1 = "w\<lparr>queue := ps, receive_calls := Suc (receive_calls w)\<rparr>"
  let ?d = "Device (udev_context (mon w)) p"
  obtain r w2 where cc: "call_callback ?d ?w1 = (r, w2)" by (cases "call_callback ?d ?w1")
  have 1: "sink_inv ?w1" "stop_event_sink ?w1 \<noteq> None \<longrightarrow> source_open ?w1"
    using assms by auto
  have "callback w ?d \<noteq> CbRaise" using assms(6) by (metis rangeI)
  with call_callback_sink_inv[OF cc 1] have r: "r = Return ()" by auto
  from call_callback_frame(5)[OF cc] have q: "queue w2 = ps" by simp
  from assms(5) Cons have "p \<noteq> 0" by auto
  with assms(1,2,7) Cons cc r q show ?thesis by (auto simp: for_body_other)
qed

lemma for_fds_exits:
  "for_fds fds w = (f, w') \<Longrightarrow> sink_inv w \<Longrightarrow> source_open w \<Longrightarrow> stop_event_sink w = None \<Longrightarrow>
   stop_event_source w \<in> set fds \<Longrightarrow>
   f \<noteq> Continue \<and> f \<noteq> Stuck \<and>
   (0 \<notin> set (queue w) \<and> CbRaise \<notin> range (callback w) \<and> selectable w \<longrightarrow>
      f = Returned \<and> \<not> source_open w')"
proof (induction fds arbitrary: w)
  case Nil
  then show ?case by simp
next
  case (Cons x fds)
  obtain f1 w1 where b: "for_body x w = (f1, w1)" by (cases "for_body x w")
  show ?case
  proof (cases "x = stop_event_source w")
    case True
    with Cons.prems b show ?thesis by (auto simp: for_body_stop)
  next
    case False
    have c: "x = stop_event_source w \<longrightarrow> stop_event_sink w = None" using False by simp
    have so: "stop_event_sink w \<noteq> None \<longrightarrow> source_open w" using Cons.prems(3) by simp
    note bi = for_body_sink_inv[OF b Cons.prems(2,3) c]
    note fr = for_body_frame[OF b]
    note nf = for_body_nofail[OF b False Cons.prems(2) so]
    show ?thesis
    proof (cases f1)
      case Continue
      with b Cons.prems(1) have r: "for_fds fds w1 = (f, w')" by simp
      from bi Continue Cons.prems(4)
      have i: "sink_inv w1" "source_open w1" "stop_event_sink w1 = None" by auto
      from fr Cons.prems(5) False have m: "stop_event_source w1 \<in> set fds" by auto
      note ih = Cons.IH[OF r i m]
      have "0 \<notin> set (queue w) \<and> CbRaise \<notin> range (callback w) \<and> selectable w \<longrightarrow>
            0 \<notin> set (queue w1) \<and> CbRaise \<notin> range (callback w1) \<and> selectable w1"
        using nf fr selectable_fd[of w1 w] by auto
      with ih show ?thesis by auto
    next
      case Returned
      with bi b Cons.prems(1) show ?thesis by auto
    next
      case (Raised e)
      with b Cons.prems(1) nf show ?thesis by auto
    next
      case Stuck
      with bi show ?thesis by simp
    qed
  qed
qed

lemma stop_ready_alive:
  "pipe_inv w \<Longrightarrow> thread w = Alive \<Longrightarrow> stop_event_sink w = None \<Longrightarrow> stop_ready w"
  by (auto simp: pipe_inv_def sink_inv_def stop_ready_def)

lemma poll_keeps:
  "mon (snd (poll timeout w)) = mon w" "enable_calls (snd (poll timeout w)) = enable_calls w"
  "receiving (snd (poll timeout w)) = receiving w"
  by (simp_all add: poll_eq split: option.splits list.splits)

lemma apply_op_count:
  "(started (mon (apply_op x w)) \<longleftrightarrow> started (mon w) \<or> x = Start) \<and>
   enable_calls (apply_op x w) =
     enable_calls w + (if started (mon (apply_op x w)) \<and> \<not> started (mon w) then 1 else 0)"
proof (cases x)
  case (FilterBy s t)
  then show ?thesis
    by (simp add: filter_by_def udev_monitor_filter_update_def
                  udev_monitor_filter_add_match_subsystem_devtype_def Let_def)
next
  case (FilterByTag t)
  then show ?thesis
    by (simp add: filter_by_tag_def udev_monitor_filter_update_def
                  udev_monitor_filter_add_match_tag_def)
next
  case RemoveFilter
  then show ?thesis
    by (simp add: remove_filter_def udev_monitor_filter_update_def
                  udev_monitor_filter_remove_def)
next
  case Start
  then show ?thesis by (simp add: start_def udev_monitor_enable_receiving_def)
next
  case (SetReceiveBufferSize n)
  then show ?thesis
    by (simp add: set_receive_buffer_size_def udev_monitor_set_receive_buffer_size_def)
next
  case (Poll timeout)
  then show ?thesis by (simp add: poll_keeps)
next
  case Fileno
  then show ?thesis by simp
next
  case (Inject p)
  then show ?thesis by (simp add: inject_def)
qed

lemma apply_ops_count:
  "(started (mon (apply_ops ops w)) \<longleftrightarrow> started (mon w) \<or> Start \<in> set ops) \<and>
   enable_calls (apply_ops ops w) =
     enable_calls w + (if started (mon (apply_ops ops w)) \<and> \<not> started (mon w) then 1 else 0)"
proof (induction ops arbitrary: w)
  case Nil
  then show ?case by (simp add: apply_ops_def)
next
  case (Cons x ops)
  have e: "apply_ops (x # ops) w = apply_ops ops (apply_op x w)" by (simp add: apply_ops_def)
  from Cons.IH[of "apply_op x w"] apply_op_count[of x w] show ?case
    unfolding e by auto
qed

lemma started_step: "started (mon w) \<Longrightarrow> started (mon (step ev w))"
proof (cases ev)
  case (Wake fds)
  assume n: "started (mon w)"
  obtain f w1 where r: "for_fds fds w = (f, w1)" by (cases "for_fds fds w")
  from for_fds_frame[OF r] n have "started (mon (finish f w1))"
    by (cases f) (auto simp: finish_def)
  with n r Wake show ?thesis by auto
qed (auto simp: inject_def send_stop_frame stop_frame run_setup_def start_def Let_def)

lemma started_exec: "started (mon w) \<Longrightarrow> started (mon (exec tr w))"
  unfolding exec_def by (induction tr arbitrary: w) (auto simp: started_step)

lemma loop_order:
  "loop wakes w = (r, w') \<Longrightarrow> order_inv w \<Longrightarrow>
   prefix_inv w' \<and> (r \<noteq> Raise EnvironmentError \<longrightarrow> order_inv w')"
proof (induction wakes arbitrary: w)
  case Nil
  then show ?case by (auto simp: order_prefix)
next
  case (Cons fds wakes)
  obtain f w1 where ff: "for_fds fds w = (f, w1)" by (cases "for_fds fds w")
  note fo = for_fds_order[OF ff Cons.prems(2)]
  show ?case
  proof (cases f)
    case Continue
    with ff Cons.prems(1) have "loop wakes w1 = (r, w')" by simp
    moreover from fo Continue have "order_inv w1" by simp
    ultimately show ?thesis by (rule Cons.IH)
  qed (use ff Cons.prems(1) fo order_prefix[of w1] in auto)
qed

lemma order_inv_start: "order_inv (start w) = order_inv w"
  by (simp add: order_inv_def delivered_devices_def start_def udev_monitor_enable_receiving_def)

lemma run_order:
  assumes "order_inv w" shows "prefix_inv (snd (run wakes w))"
proof (cases "source_open (start w)")
  case False
  then show ?thesis using assms order_inv_start[of w] order_prefix[of "start w"]
    by (simp add: run_def run_setup_def Let_def)
next
  case True
  obtain r w' where l: "loop wakes (start w) = (r, w')" by (cases "loop wakes (start w)")
  from loop_order[OF l] assms have "prefix_inv w'" by (simp add: order_inv_start)
  with True l show ?thesis by (simp add: run_def run_setup_def Let_def)
qed

lemma for_fds_single: "snd (for_fds [x] w) = snd (for_body x w)"
  by (cases "for_body x w"; cases "fst (for_body x w)") auto

lemma step_wake_drain:
  assumes "thread w = Alive" "selectable w" "x \<noteq> stop_event_source w"
      and "queue w = p # ps" "p \<noteq> 0"
  shows "invoked (step (Wake [x]) w) = invoked w @ [Device (udev_context (mon w)) p] \<and>
         queue (step (Wake [x]) w) = ps"
proof -
  obtain f w1 where b: "for_body x w = (f, w1)" by (cases "for_body x w")
  note d = for_body_drain[OF assms(3,2,4,5) b]
  obtain f' where ff: "for_fds [x] w = (f', w1)"
    using for_fds_single[of x w] b by (cases "for_fds [x] w") auto
  have "step (Wake [x]) w = finish f' w1" using assms(1,3) ff by simp
  moreover have "invoked (finish f' w1) = invoked w1" "queue (finish f' w1) = queue w1"
    by (cases f'; simp add: finish_def)+
  ultimately show ?thesis using d by simp
qed

lemma loop_drain:
  "x \<noteq> stop_event_source w \<Longrightarrow> selectable w \<Longrightarrow> sink_inv w \<Longrightarrow> source_open w \<Longrightarrow>
   0 \<notin> set (queue w) \<Longrightarrow> CbRaise \<notin> range (callback w) \<Longrightarrow> n \<le> length (queue w) \<Longrightarrow>
   \<exists>w'. loop (replicate n [x] @ wakes) w = loop wakes w' \<and>
        invoked w' = invoked w @ map (Device (udev_context (mon w))) (take n (queue w)) \<and>
        queue w' = drop n (queue w) \<and> stop_event_source w' = stop_event_source w \<and>
        source_open w'"
proof (induction n arbitrary: w)
  case 0
  then show ?case by (intro exI[of _ w]) simp
next
  case (Suc n)
  from Suc.prems(7) obtain p ps where q: "queue w = p # ps" by (cases "queue w") auto
  with Suc.prems(5) have nz: "p \<noteq> 0" by auto
  obtain f w1 where b: "for_body x w = (f, w1)" by (cases "for_body x w")
  have so: "stop_event_sink w \<noteq> None \<longrightarrow> source_open w" using Suc.prems(4) by simp
  have c: "x = stop_event_source w \<longrightarrow> stop_event_sink w = None" using Suc.prems(1) by simp
  note nf = for_body_nofail[OF b Suc.prems(1,3) so Suc.prems(5,6,2)]
  note d = for_body_drain[OF Suc.prems(1,2) q nz b]
  note fr = for_body_frame[OF b]
  note bi = for_body_sink_inv[OF b Suc.prems(3,4) c]
  from nf have f: "f = Continue" by simp
  have st: "loop (replicate (Suc n) [x] @ wakes) w = loop (replicate n [x] @ wakes) w1"
    using b f by simp
  have 1: "x \<noteq> stop_event_source w1" using fr Suc.prems(1) by simp
  have 2: "selectable w1" using fr Suc.prems(2) selectable_fd[of w1 w] by simp
  have 3: "sink_inv w1" "source_open w1" using bi f by auto
  have 4: "0 \<notin> set (queue w1)" using d q Suc.prems(5) by auto
  have 5: "CbRaise \<notin> range (callback w1)" using fr Suc.prems(6) by simp
  have 6: "n \<le> length (queue w1)" using d q Suc.prems(7) by simp
  from Suc.IH[OF 1 2 3 4 5 6] obtain w' where
    w': "loop (replicate n [x] @ wakes) w1 = loop wakes w'"
        "invoked w' = invoked w1 @ map (Device (udev_context (mon w1))) (take n (queue w1))"
        "queue w' = drop n (queue w1)" "stop_event_source w' = stop_event_source w1"
        "source_open w'" by blast
  show ?case
    using st w' d q fr by (intro exI[of _ w']) simp
qed

lemma run_drain:
  assumes "0 \<notin> set (queue mw)" "CbRaise \<notin> range f" "selectable mw" "fd mw \<noteq> fst fds"
      and "n \<le> length (queue mw)"
  shows "fst (run (replicate n [fd mw] @ [[fst fds]]) (observer_world mw f fds)) = Return () \<and>
         invoked (snd (run (replicate n [fd mw] @ [[fst fds]]) (observer_world mw f fds)))
           = map (Device (udev_context (mon mw))) (take n (queue mw)) \<and>
         queue (snd (run (replicate n [fd mw] @ [[fst fds]]) (observer_world mw f fds)))
           = drop n (queue mw)"
proof -
  let ?ow = "observer_world mw f fds"
  let ?sw = "start ?ow"
  have s: "run_setup ?ow = (Return (), ?sw)"
    by (simp add: run_setup_def Let_def start_def udev_monitor_enable_receiving_def
                  observer_world_def)
  have 1: "fd mw \<noteq> stop_event_source ?sw"
    using assms(4) by (simp add: start_def udev_monitor_enable_receiving_def observer_world_def)
  have 2: "selectable ?sw"
    using assms(3)
    by (simp add: selectable_def fileno_def udev_monitor_get_fd_def start_def
                  udev_monitor_enable_receiving_def observer_world_def)
  have 3: "sink_inv ?sw" "source_open ?sw"
    by (simp_all add: sink_inv_def start_def udev_monitor_enable_receiving_def
                      observer_world_def)
  have 4: "queue ?sw = queue mw" "callback ?sw = f" "invoked ?sw = []"
          "udev_context (mon ?sw) = udev_context (mon mw)"
    by (simp_all add: start_def udev_monitor_enable_receiving_def observer_world_def)
  from loop_drain[OF 1 2 3, of n "[[fst fds]]"] assms 4
  obtain w' where w': "loop (replicate n [fd mw] @ [[fst fds]]) ?sw = loop [[fst fds]] w'"
     "invoked w' = map (Device (udev_context (mon mw))) (take n (queue mw))"
     "queue w' = drop n (queue mw)" "stop_event_source w' = stop_event_source ?sw"
     "source_open w'" by auto
  have src: "stop_event_source ?sw = fst fds"
    by (simp add: start_def udev_monitor_enable_receiving_def observer_world_def)
  have "for_body (fst fds) w' =
          (Returned, w'\<lparr>source_open := False, source_closes := Suc (source_closes w')\<rparr>)"
    using for_body_stop[of w'] w'(4,5) src by simp
  then have l: "loop [[fst fds]] w' =
          (Return (), w'\<lparr>source_open := False, source_closes := Suc (source_closes w')\<rparr>)"
    by simp
  have r: "run (replicate n [fd mw] @ [[fst fds]]) ?ow =
           loop (replicate n [fd mw] @ [[fst fds]]) ?sw"
    unfolding run_def s by simp
  have "run (replicate n [fd mw] @ [[fst fds]]) ?ow =
          (Return (), w'\<lparr>source_open := False, source_closes := Suc (source_closes w')\<rparr>)"
    using r w'(1) l by simp
  then show ?thesis using w'(2,3) by simp
qed

lemmas world_defs = demo_world_def observer_world_def fresh_mworld_def Monitor_init_def
  exec_def run_setup_def start_def udev_monitor_enable_receiving_def inject_def
  for_body_def poll0 call_callback_def logging_callback_def stopping_callback_def
  send_stop_def os_write_sink_def os_close_sink_def os_close_source_def stop_def join_def
  finish_def stop_ready_def Device_def Let_def selectable_def fileno_def udev_monitor_get_fd_def
  FD_SETSIZE_def

section \<open>The monitor\<close>


text \<open>
  C1. The docstrings say that \<^verbatim>\<open>poll()\<close> implicitly calls \<^verbatim>\<open>start()\<close> ("This
  method implicitly calls \<^verbatim>\<open>start()\<close>", and in \<^verbatim>\<open>start\<close>: "It is implicitly called
  by \<^verbatim>\<open>poll()\<close>"). The body of \<^verbatim>\<open>poll\<close> does not: on a monitor just created,
  \<^verbatim>\<open>poll(timeout=0)\<close> returns \<^verbatim>\<open>None\<close> and leaves the monitor not started and not
  receiving, and \<^verbatim>\<open>poll()\<close> without time-out never returns, the datagram the kernel
  had for it being dropped.
\<close>

theorem poll_does_not_start:
  "fst (poll (Some 0) (fresh_mworld 1 2 5)) = Return None \<and>
   \<not> started (mon (snd (poll (Some 0) (fresh_mworld 1 2 5)))) \<and>
   \<not> receiving (snd (poll (Some 0) (fresh_mworld 1 2 5))) \<and>
   enable_calls (snd (poll (Some 0) (fresh_mworld 1 2 5))) = 0 \<and>
   poll None (inject 7 (fresh_mworld 1 2 5)) = (Block, fresh_mworld 1 2 5)"
  by (simp add: poll_eq monitor_defs)

text \<open>
  C6. For the source names \<^verbatim>\<open>"udev"\<close> and \<^verbatim>\<open>"kernel"\<close>, \<^verbatim>\<open>from_netlink\<close> asks
  libudev for a monitor once; it returns a \<^verbatim>\<open>Monitor\<close> that is not started when
  libudev hands out a handle, and raises \<^verbatim>\<open>EnvironmentError\<close> exactly when libudev
  hands out \<^verbatim>\<open>NULL\<close>. For every other name it raises \<^verbatim>\<open>ValueError\<close> and leaves
  the library untouched: no connection attempt is made.
\<close>

theorem from_netlink_sources:
  "(source \<in> {''udev'', ''kernel''} \<longrightarrow>
      (netlink_handle lib \<noteq> 0 \<longrightarrow>
         (\<exists>m. fst (from_netlink lib ctx source) = Return m \<and> \<not> started m
              \<and> udev_context m = ctx \<and> as_parameter m = netlink_handle lib)) \<and>
      (netlink_handle lib = 0 \<longrightarrow> fst (from_netlink lib ctx source) = Raise EnvironmentError) \<and>
      netlink_calls (snd (from_netlink lib ctx source)) = netlink_calls lib @ [(ctx, source)]) \<and>
   (source \<notin> {''udev'', ''kernel''} \<longrightarrow>
      from_netlink lib ctx source = (Raise ValueError, lib))"
  by (auto simp: from_netlink_def udev_monitor_new_from_netlink_def ensure_byte_string_def
                 Monitor_init_def)

text \<open>The theorem at work on a concrete history.\<close>

theorem from_netlink_sources_witness:
  "''udev'' \<in> {''udev'', ''kernel''} \<and> ''usb'' \<notin> {''udev'', ''kernel''} \<and>
   fst (from_netlink \<lparr>netlink_handle = 2, netlink_calls = []\<rparr> 1 ''udev'')
     = Return \<lparr>udev_context = 1, as_parameter = 2, started = False\<rparr> \<and>
   fst (from_netlink \<lparr>netlink_handle = 0, netlink_calls = []\<rparr> 1 ''kernel'')
     = Raise EnvironmentError \<and>
   from_netlink \<lparr>netlink_handle = 2, netlink_calls = []\<rparr> 1 ''usb''
     = (Raise ValueError, \<lparr>netlink_handle = 2, netlink_calls = []\<rparr>)"
  using from_netlink_sources[of "''udev''" "\<lparr>netlink_handle = 2, netlink_calls = []\<rparr>" 1]
        from_netlink_sources[of "''kernel''" "\<lparr>netlink_handle = 0, netlink_calls = []\<rparr>" 1]
        from_netlink_sources[of "''usb''" "\<lparr>netlink_handle = 2, netlink_calls = []\<rparr>" 1]
  by (simp add: from_netlink_def udev_monitor_new_from_netlink_def ensure_byte_string_def
                Monitor_init_def)

text \<open>
  C7, as stated, fails: \<^verbatim>\<open>select.select\<close> has a domain of its own. With a
  datagram queued and a time-out of zero, \<^verbatim>\<open>poll\<close> on a monitor whose socket is
  descriptor \<open>1500\<close> raises \<^verbatim>\<open>ValueError\<close>, and \<^verbatim>\<open>poll\<close> with a time-out one
  unit beyond the C time type raises \<^verbatim>\<open>OverflowError\<close>; in both cases the datagram
  stays queued and no receive is made.
\<close>

theorem poll_select_counterexample:
  "queue (inject 7 (start (fresh_mworld 1 2 1500))) = [7] \<and>
   poll (Some 0) (inject 7 (start (fresh_mworld 1 2 1500)))
     = (Raise ValueError, inject 7 (start (fresh_mworld 1 2 1500))) \<and>
   queue (inject 7 (start (fresh_mworld 1 2 5))) = [7] \<and>
   (0::int) \<le> 2 ^ 63 \<and>
   poll (Some (2 ^ 63)) (inject 7 (start (fresh_mworld 1 2 5)))
     = (Raise OverflowError, inject 7 (start (fresh_mworld 1 2 5)))"
  by (simp add: poll_eq monitor_defs)

text \<open>
  C7, as the code has it. \<^verbatim>\<open>poll\<close> on a monitor whose descriptor \<^verbatim>\<open>select\<close>
  accepts, with no time-out or with a time-out that is not negative and fits the C
  time type: when no datagram is queued, the call with a time-out returns \<^verbatim>\<open>None\<close>
  and leaves the world as it was, in particular without a call of
  \<^verbatim>\<open>udev_monitor_receive_device\<close> (the call without time-out never returns); when
  a datagram is queued, the call takes exactly that one datagram off the socket with
  exactly one receive, raises \<^verbatim>\<open>EnvironmentError\<close> when libudev returns \<^verbatim>\<open>NULL\<close>
  for it and returns its one \<^verbatim>\<open>Device\<close> otherwise. With a time-out too large for
  the C time type the call raises \<^verbatim>\<open>OverflowError\<close>, and with a descriptor that
  \<^verbatim>\<open>select\<close> refuses it raises \<^verbatim>\<open>ValueError\<close>, both before any receive.
\<close>

theorem poll_receive:
  "(selectable w \<and>
    (timeout = None \<or> (\<exists>t. timeout = Some t \<and> 0 \<le> t \<and> t \<le> TIMEOUT_MAX)) \<longrightarrow>
      (queue w = [] \<longrightarrow>
         poll timeout w = (if timeout = None then Block else Return None, w)) \<and>
      (\<forall>p ps. queue w = p # ps \<longrightarrow>
         receive_calls (snd (poll timeout w)) = Suc (receive_calls w) \<and>
         queue (snd (poll timeout w)) = ps \<and>
         fst (poll timeout w) =
           (if p = 0 then Raise EnvironmentError
            else Return (Some (Device (udev_context (mon w)) p))))) \<and>
   ((\<exists>t. timeout = Some t \<and> TIMEOUT_MAX < t) \<longrightarrow>
      poll timeout w = (Raise OverflowError, w)) \<and>
   (\<not> selectable w \<and>
    (timeout = None \<or> (\<exists>t. timeout = Some t \<and> 0 \<le> t \<and> t \<le> TIMEOUT_MAX)) \<longrightarrow>
      poll timeout w = (Raise ValueError, w))"
  by (auto simp: poll_eq)

text \<open>The theorem at work on a concrete history.\<close>

theorem poll_receive_witness:
  "selectable (start (fresh_mworld 1 2 5)) \<and>
   (\<exists>t. Some (0::int) = Some t \<and> 0 \<le> t \<and> t \<le> TIMEOUT_MAX) \<and>
   queue (start (fresh_mworld 1 2 5)) = [] \<and>
   poll (Some 0) (start (fresh_mworld 1 2 5)) = (Return None, start (fresh_mworld 1 2 5)) \<and>
   poll None (start (fresh_mworld 1 2 5)) = (Block, start (fresh_mworld 1 2 5)) \<and>
   queue (inject 7 (start (fresh_mworld 1 2 5))) = [7] \<and>
   fst (poll (Some 3) (inject 7 (start (fresh_mworld 1 2 5)))) = Return (Some (Device 1 7)) \<and>
   receive_calls (snd (poll (Some 3) (inject 7 (start (fresh_mworld 1 2 5))))) = 1 \<and>
   fst (poll None (inject 0 (start (fresh_mworld 1 2 5)))) = Raise EnvironmentError \<and>
   \<not> selectable (start (fresh_mworld 1 2 1500)) \<and>
   poll None (start (fresh_mworld 1 2 1500)) = (Raise ValueError, start (fresh_mworld 1 2 1500))"
  using poll_receive[of "start (fresh_mworld 1 2 5)" "Some 0"]
        poll_receive[of "start (fresh_mworld 1 2 5)" None]
        poll_receive[of "inject 7 (start (fresh_mworld 1 2 5))" "Some 3"]
        poll_receive[of "inject 0 (start (fresh_mworld 1 2 5))" None]
        poll_receive[of "start (fresh_mworld 1 2 1500)" None]
  by (simp add: monitor_defs)

text \<open>
  C8. \<^verbatim>\<open>start\<close> is idempotent: \<open>n \<ge> 1\<close> calls leave the world the first call
  leaves; the first call on a monitor that is not started enables receiving, once, and
  sets the flag; a call on a started monitor changes nothing. Under every sequence of
  operations on the monitor (\<open>ops\<close>), and under everything that can happen to an
  observer of the monitor (\<open>tr\<close>), the flag, once set, stays set, and
  \<^verbatim>\<open>udev_monitor_enable_receiving\<close> is called once if the flag goes from unset to set
  and not at all otherwise.
\<close>

theorem start_idempotent:
  "(0 < n \<longrightarrow> (start ^^ n) w = start w) \<and>
   started (mon (start w)) \<and>
   (\<not> started (mon w) \<longrightarrow> receiving (start w) \<and> enable_calls (start w) = Suc (enable_calls w)) \<and>
   (started (mon w) \<longrightarrow> start w = w) \<and>
   (started (mon w) \<longrightarrow> started (mon (apply_ops ops w))) \<and>
   enable_calls (apply_ops ops w) =
     enable_calls w + (if started (mon (apply_ops ops w)) \<and> \<not> started (mon w) then 1 else 0) \<and>
   (started (mon ow) \<longrightarrow> started (mon (exec tr ow)))"
  using start_pow[of n w] start_started[of w] start_noop[of w] apply_ops_count[of ops w]
        started_exec[of ow tr]
  by (auto simp: start_def udev_monitor_enable_receiving_def)

text \<open>The theorem at work on a concrete history.\<close>

theorem start_idempotent_witness:
  "(0::nat) < 3 \<and> (start ^^ 3) (fresh_mworld 1 2 5) = start (fresh_mworld 1 2 5) \<and>
   \<not> started (mon (fresh_mworld 1 2 5)) \<and> receiving (start (fresh_mworld 1 2 5)) \<and>
   enable_calls (start (fresh_mworld 1 2 5)) = 1 \<and>
   enable_calls (apply_ops [Poll (Some 0), Start, Inject 7, Start] (fresh_mworld 1 2 5)) = 1 \<and>
   started (mon (exec [ThreadStart] demo_world)) \<and>
   started (mon (exec [Arrive 7, Wake [5], SendStop, Wake [3]] (exec [ThreadStart] demo_world)))"
proof -
  have 1: "started (mon (exec [ThreadStart] demo_world))"
    by (simp add: world_defs)
  from 1 start_idempotent[of 3 "fresh_mworld 1 2 5" "[Poll (Some 0), Start, Inject 7, Start]"
                           "exec [ThreadStart] demo_world" "[Arrive 7, Wake [5], SendStop, Wake [3]]"]
  show ?thesis by (simp add: monitor_defs poll_eq)
qed

text \<open>
  C2, as stated, fails. The thread is started, a datagram arrives, \<^verbatim>\<open>send_stop()\<close>
  is called; the read end of the pipe and the socket are ready together. When
  \<^verbatim>\<open>notifier.poll()\<close> lists the socket (descriptor \<open>5\<close>) before the read end
  (descriptor \<open>3\<close>), the datagram is drained and the callback is called with its
  device, and only then is the read end closed.
\<close>

theorem stop_priority_counterexample:
  "stop_ready (exec [ThreadStart, Arrive 7, SendStop] demo_world) \<and>
   queue (exec [ThreadStart, Arrive 7, SendStop] demo_world) = [7] \<and>
   stop_event_source (exec [ThreadStart, Arrive 7, SendStop] demo_world) \<in> set [5, 3] \<and>
   invoked (exec [ThreadStart, Arrive 7, SendStop] demo_world) = [] \<and>
   fst (for_fds [5, 3] (exec [ThreadStart, Arrive 7, SendStop] demo_world)) = Returned \<and>
   invoked (snd (for_fds [5, 3] (exec [ThreadStart, Arrive 7, SendStop] demo_world)))
     = [Device 1 7] \<and>
   queue (snd (for_fds [5, 3] (exec [ThreadStart, Arrive 7, SendStop] demo_world))) = []"
  by (simp add: world_defs)

text \<open>
  C2, as the code has it. The descriptors of one wake are handled in the order of the
  list. Let \<open>pre\<close> be the descriptors listed before the read end of the pipe, and let
  handling them alone give the flow \<open>f\<close> and the world \<open>w1\<close>. If that went through
  (\<open>Continue\<close>), the observer then closes the read end and \<^verbatim>\<open>run\<close> returns, in the
  world \<open>w1\<close>: what the entries of \<open>pre\<close> drained has been handed to the callback,
  the descriptors listed after the read end (\<open>post\<close>) are not handled, and what is
  still queued stays unread. If handling \<open>pre\<close> ended \<^verbatim>\<open>run\<close>, the read end is not
  reached. With \<open>pre\<close> empty the read end is closed before anything is drained.
\<close>

theorem stop_in_wake:
  assumes "f = fst (for_fds pre w)" and "w1 = snd (for_fds pre w)"
  shows "(f = Continue \<and> source_open w1 \<longrightarrow>
            for_fds (pre @ stop_event_source w # post) w =
              (Returned, w1\<lparr>source_open := False, source_closes := Suc (source_closes w1)\<rparr>)) \<and>
         (f \<noteq> Continue \<longrightarrow> for_fds (pre @ stop_event_source w # post) w = (f, w1))"
proof -
  have r: "for_fds pre w = (f, w1)" using assms by simp
  from for_fds_frame[OF r] have "stop_event_source w1 = stop_event_source w" by simp
  then have "for_body (stop_event_source w) w1 =
     (if source_open w1
      then (Returned, w1\<lparr>source_open := False, source_closes := Suc (source_closes w1)\<rparr>)
      else (Raised OSError, w1))"
    using for_body_stop[of w1] by simp
  with r show ?thesis by (auto simp: for_fds_append)
qed

text \<open>The theorem at work on a concrete history.\<close>

theorem stop_in_wake_witness:
  "fst (for_fds [5] (exec [ThreadStart, Arrive 7, Arrive 8, SendStop] demo_world)) = Continue \<and>
   source_open (snd (for_fds [5] (exec [ThreadStart, Arrive 7, Arrive 8, SendStop] demo_world))) \<and>
   fst (for_fds ([5] @ stop_event_source (exec [ThreadStart, Arrive 7, Arrive 8, SendStop] demo_world) # [5])
          (exec [ThreadStart, Arrive 7, Arrive 8, SendStop] demo_world)) = Returned \<and>
   invoked (snd (for_fds ([5] @ stop_event_source (exec [ThreadStart, Arrive 7, Arrive 8, SendStop] demo_world) # [5])
          (exec [ThreadStart, Arrive 7, Arrive 8, SendStop] demo_world))) = [Device 1 7] \<and>
   queue (snd (for_fds ([5] @ stop_event_source (exec [ThreadStart, Arrive 7, Arrive 8, SendStop] demo_world) # [5])
          (exec [ThreadStart, Arrive 7, Arrive 8, SendStop] demo_world))) = [8]"
  using stop_in_wake[OF refl refl, of "[5]" "exec [ThreadStart, Arrive 7, Arrive 8, SendStop] demo_world" "[5]"]
  by (simp add: world_defs)

text \<open>
  C3. Take an observer as its constructor leaves it and let anything happen to it: the
  thread is started or not, datagrams arrive, the loop wakes, \<^verbatim>\<open>send_stop()\<close> and
  \<^verbatim>\<open>stop()\<close> are called any number of times, by other threads or by the callback.
  In the world \<open>w\<close> reached, one pipe has been created, at most one byte has been
  written and the write end has been closed at most once; a further call of
  \<^verbatim>\<open>send_stop()\<close> returns normally, and after it exactly one byte has been written in
  all and the write end has been closed exactly once in all; the attribute
  \<^verbatim>\<open>_stop_event_sink\<close> is \<^verbatim>\<open>None\<close> from then on, and a call that finds it
  \<^verbatim>\<open>None\<close> changes nothing. So as soon as the history holds one call, the counts are
  exactly one.
\<close>

theorem send_stop_once:
  fixes mw f fds tr tr'
  defines "w \<equiv> exec tr (observer_world mw f fds)"
  shows "pipes_created w = 1 \<and> bytes_written w \<le> 1 \<and> sink_closes w \<le> 1 \<and>
         fst (send_stop w) = Return () \<and>
         bytes_written (snd (send_stop w)) = 1 \<and> sink_closes (snd (send_stop w)) = 1 \<and>
         stop_event_sink (exec tr' (snd (send_stop w))) = None \<and>
         (stop_event_sink w = None \<longrightarrow> send_stop w = (Return (), w)) \<and>
         (SendStop \<in> set tr \<or> Stop \<in> set tr \<longrightarrow>
            stop_event_sink w = None \<and> bytes_written w = 1 \<and> sink_closes w = 1)"
proof -
  have pi: "pipe_inv w" unfolding w_def by (rule pipe_inv_exec[OF pipe_inv_init])
  then have si: "sink_inv w" by (simp add: pipe_inv_def)
  note ss = send_stop_sink_inv[OF si pipe_inv_sink_source[OF pi]]
  have pi': "pipe_inv (snd (send_stop w))" using pi by (rule pipe_inv_send_stop)
  have a: "pipes_created w = 1 \<and> bytes_written w \<le> 1 \<and> sink_closes w \<le> 1"
    using si by (auto simp: sink_inv_def split: option.splits)
  have b: "bytes_written (snd (send_stop w)) = 1 \<and> sink_closes (snd (send_stop w)) = 1"
    using ss by (auto simp: sink_inv_def)
  have c: "stop_event_sink (exec tr' (snd (send_stop w))) = None"
    using sink_None_exec[OF pi'] ss by simp
  have d: "SendStop \<in> set tr \<or> Stop \<in> set tr \<longrightarrow>
            stop_event_sink w = None \<and> bytes_written w = 1 \<and> sink_closes w = 1"
  proof
    assume "SendStop \<in> set tr \<or> Stop \<in> set tr"
    then have "stop_event_sink w = None"
      unfolding w_def using sink_None_exec[OF pipe_inv_init] by blast
    then show "stop_event_sink w = None \<and> bytes_written w = 1 \<and> sink_closes w = 1"
      using si by (simp add: sink_inv_def)
  qed
  from a b c d ss show ?thesis by (simp add: send_stop_None)
qed

text \<open>The theorem at work on a concrete history.\<close>

theorem send_stop_once_witness:
  "SendStop \<in> set [ThreadStart, SendStop, Arrive 7, SendStop] \<and>
   stop_event_sink (exec [ThreadStart, SendStop, Arrive 7, SendStop] demo_world) = None \<and>
   bytes_written (exec [ThreadStart, SendStop, Arrive 7, SendStop] demo_world) = 1 \<and>
   sink_closes (exec [ThreadStart, SendStop, Arrive 7, SendStop] demo_world) = 1 \<and>
   pipes_created (exec [ThreadStart, SendStop, Arrive 7, SendStop] demo_world) = 1 \<and>
   send_stop (exec [ThreadStart, SendStop, Arrive 7, SendStop] demo_world)
     = (Return (), exec [ThreadStart, SendStop, Arrive 7, SendStop] demo_world)"
  using send_stop_once[of "[ThreadStart, SendStop, Arrive 7, SendStop]" "fresh_mworld 1 2 5"
                          logging_callback "(3, 4)" "[]"]
  by (simp add: demo_world_def)




text \<open>
  C5. \<^verbatim>\<open>stop()\<close> called by the observer thread itself, in a world that keeps the
  discipline of the pipe, returns normally: it does not wait for its own thread. The
  thread is still alive, the stop signal is sent and the read end of the pipe is
  ready. Whatever happens next (\<open>tr\<close>), as long as the thread is alive the read end
  stays ready, and the wake that reports it ends the thread: by a return from
  \<^verbatim>\<open>run\<close> with the read end closed, unless a receive or the callback fails on a
  descriptor listed before it. (A receive fails on a datagram libudev rejects, and on
  a socket whose descriptor \<^verbatim>\<open>select\<close> refuses; the callback runs only after a
  receive on that socket has succeeded.)
\<close>

theorem stop_from_observer:
  assumes "pipe_inv w" and "thread w = Alive"
      and "w' = snd (stop ObserverThread w)" and "w2 = exec tr w'"
  shows "fst (stop ObserverThread w) = Return () \<and> thread w' = Alive \<and>
         stop_event_sink w' = None \<and> stop_ready w' \<and>
         (thread w2 = Alive \<and> stop_event_source w2 \<in> set fds \<longrightarrow>
            stop_ready w2 \<and> (\<exists>e. thread (step (Wake fds) w2) = Finished e) \<and>
            (0 \<notin> set (queue w2) \<and> CbRaise \<notin> range (callback w2) \<and> selectable w2 \<longrightarrow>
               thread (step (Wake fds) w2) = Finished None \<and>
               \<not> source_open (step (Wake fds) w2)))"
proof -
  have s: "w' = snd (send_stop w)" using assms(3) by (simp add: stop_snd)
  have ss: "fst (send_stop w) = Return () \<and> sink_inv w' \<and> stop_event_sink w' = None"
    unfolding s using send_stop_sink_inv[of w] pipe_inv_sink_source[OF assms(1)] assms(1)
    by (auto simp: pipe_inv_def)
  have r: "fst (stop ObserverThread w) = Return ()"
    using ss by (auto simp: stop_observer split: prod.splits outcome.splits)
  have pi: "pipe_inv w'" unfolding s using assms(1) by (rule pipe_inv_send_stop)
  have t: "thread w' = Alive" unfolding s using assms(2) by (simp add: send_stop_frame)
  have pi2: "pipe_inv w2" unfolding assms(4) using pi by (rule pipe_inv_exec)
  have n2: "stop_event_sink w2 = None"
    unfolding assms(4) using sink_None_exec[OF pi] ss by simp
  have wake: "thread w2 = Alive \<and> stop_event_source w2 \<in> set fds \<longrightarrow>
            stop_ready w2 \<and> (\<exists>e. thread (step (Wake fds) w2) = Finished e) \<and>
            (0 \<notin> set (queue w2) \<and> CbRaise \<notin> range (callback w2) \<and> selectable w2 \<longrightarrow>
               thread (step (Wake fds) w2) = Finished None \<and>
               \<not> source_open (step (Wake fds) w2))"
  proof
    assume a: "thread w2 = Alive \<and> stop_event_source w2 \<in> set fds"
    then have sr: "stop_ready w2" using stop_ready_alive[OF pi2 _ n2] by simp
    obtain f w3 where ff: "for_fds fds w2 = (f, w3)" by (cases "for_fds fds w2")
    from pi2 a have so: "source_open w2" and si: "sink_inv w2" by (auto simp: pipe_inv_def)
    note ex = for_fds_exits[OF ff si so n2]
    have st: "step (Wake fds) w2 = finish f w3" using a sr ff by simp
    from ex a have "\<exists>e. thread (finish f w3) = Finished e"
      by (cases f) (auto simp: finish_def)
    moreover from ex a
    have "0 \<notin> set (queue w2) \<and> CbRaise \<notin> range (callback w2) \<and> selectable w2 \<longrightarrow>
               thread (finish f w3) = Finished None \<and> \<not> source_open (finish f w3)"
      by (auto simp: finish_def)
    ultimately show "stop_ready w2 \<and> (\<exists>e. thread (step (Wake fds) w2) = Finished e) \<and>
            (0 \<notin> set (queue w2) \<and> CbRaise \<notin> range (callback w2) \<and> selectable w2 \<longrightarrow>
               thread (step (Wake fds) w2) = Finished None \<and>
               \<not> source_open (step (Wake fds) w2))"
      using sr st by simp
  qed
  from r t ss stop_ready_alive[OF pi t] wake show ?thesis by (simp del: step.simps)
qed

lemma range_stopping_callback: "CbRaise \<notin> range stopping_callback"
  by (auto simp: stopping_callback_def)

text \<open>The theorem at work on a concrete history.\<close>

theorem stop_from_observer_witness:
  "pipe_inv (exec [ThreadStart, Arrive 7]
              (observer_world (fresh_mworld 1 2 5) stopping_callback (3, 4))) \<and>
   thread (exec [ThreadStart, Arrive 7]
              (observer_world (fresh_mworld 1 2 5) stopping_callback (3, 4))) = Alive \<and>
   fst (stop ObserverThread (exec [ThreadStart, Arrive 7]
              (observer_world (fresh_mworld 1 2 5) stopping_callback (3, 4)))) = Return () \<and>
   stop_event_source (exec [Arrive 8] (snd (stop ObserverThread (exec [ThreadStart, Arrive 7]
              (observer_world (fresh_mworld 1 2 5) stopping_callback (3, 4)))))) \<in> set [5, 3] \<and>
   selectable (exec [Arrive 8] (snd (stop ObserverThread (exec [ThreadStart, Arrive 7]
              (observer_world (fresh_mworld 1 2 5) stopping_callback (3, 4)))))) \<and>
   thread (step (Wake [5, 3]) (exec [Arrive 8] (snd (stop ObserverThread (exec [ThreadStart, Arrive 7]
              (observer_world (fresh_mworld 1 2 5) stopping_callback (3, 4))))))) = Finished None \<and>
   thread (exec [ThreadStart, Arrive 7, Wake [5], Wake [3]]
              (observer_world (fresh_mworld 1 2 5) stopping_callback (3, 4))) = Finished None \<and>
   invoked (exec [ThreadStart, Arrive 7, Wake [5], Wake [3]]
              (observer_world (fresh_mworld 1 2 5) stopping_callback (3, 4))) = [Device 1 7]"
proof -
  let ?w = "exec [ThreadStart, Arrive 7]
              (observer_world (fresh_mworld 1 2 5) stopping_callback (3, 4))"
  have 1: "pipe_inv ?w" by (simp add: world_defs pipe_inv_def sink_inv_def)
  have 2: "thread ?w = Alive" by (simp add: world_defs)
  have 3: "callback (exec [Arrive 8] (snd (stop ObserverThread ?w))) = stopping_callback"
    by (simp add: world_defs)
  have 4: "thread (exec [ThreadStart, Arrive 7, Wake [5], Wake [3]]
              (observer_world (fresh_mworld 1 2 5) stopping_callback (3, 4))) = Finished None \<and>
   invoked (exec [ThreadStart, Arrive 7, Wake [5], Wake [3]]
              (observer_world (fresh_mworld 1 2 5) stopping_callback (3, 4))) = [Device 1 7]"
    by (simp add: world_defs)
  have 5: "thread (exec [Arrive 8] (snd (stop ObserverThread ?w))) = Alive \<and>
           stop_event_source (exec [Arrive 8] (snd (stop ObserverThread ?w))) \<in> set [5, 3] \<and>
           0 \<notin> set (queue (exec [Arrive 8] (snd (stop ObserverThread ?w)))) \<and>
           selectable (exec [Arrive 8] (snd (stop ObserverThread ?w)))"
    by (simp add: world_defs)
  from stop_from_observer[OF 1 2 refl refl, of "[Arrive 8]" "[5, 3]"] 5 3 range_stopping_callback
  have "fst (stop ObserverThread ?w) = Return () \<and>
        thread (step (Wake [5, 3]) (exec [Arrive 8] (snd (stop ObserverThread ?w)))) = Finished None"
    by (simp del: step.simps)
  with 1 2 4 5 show ?thesis by (simp del: step.simps)
qed

text \<open>
  C9. With the observer as the only reader of the socket, after any history (\<open>tr\<close>)
  the devices the callback has been called with are an initial segment of the devices
  of the datagrams the socket received, in the order of their arrival: nothing out of
  order, nothing twice. Unless a failed receive has ended the thread, the segment is
  exactly what is no longer in the queue: what the callback has seen, followed by
  what is still buffered, is what was delivered. The same holds for \<^verbatim>\<open>run\<close> taken
  as one call, whatever the successive wakes report (\<open>wakes\<close>).

  And the loop does pass the devices on. A wake of the live thread that reports the
  socket, with a datagram at the head of the queue that libudev accepts, takes that
  datagram off the queue and calls the callback with its device. \<^verbatim>\<open>run\<close> on a
  monitor with good datagrams queued, woken \<open>n\<close> times for the socket and then for
  the read end of the pipe, returns after calling the callback with exactly the first
  \<open>n\<close> delivered devices, in their order, the others being left in the queue: all of
  them when \<open>n\<close> is their number, a strict initial segment when the stop comes
  earlier.
\<close>

theorem callback_order:
  assumes "delivered mw = queue mw" and "w = exec tr (observer_world mw f fds)"
      and "w' = snd (run wakes (observer_world mw f fds))"
  shows "prefix (invoked w) (delivered_devices w) \<and>
         (thread w \<noteq> Finished (Some EnvironmentError) \<longrightarrow>
            delivered_devices w = invoked w @ map (Device (udev_context (mon w))) (queue w)) \<and>
         prefix (invoked w') (delivered_devices w') \<and>
         (thread w = Alive \<and> selectable w \<and> x \<noteq> stop_event_source w \<and>
          queue w = p # ps \<and> p \<noteq> 0 \<longrightarrow>
            invoked (step (Wake [x]) w) = invoked w @ [Device (udev_context (mon w)) p] \<and>
            queue (step (Wake [x]) w) = ps) \<and>
         (0 \<notin> set (queue mw) \<and> CbRaise \<notin> range f \<and> selectable mw \<and> fd mw \<noteq> fst fds \<and>
          n \<le> length (queue mw) \<longrightarrow>
            fst (run (replicate n [fd mw] @ [[fst fds]]) (observer_world mw f fds)) = Return () \<and>
            invoked (snd (run (replicate n [fd mw] @ [[fst fds]]) (observer_world mw f fds)))
              = take n (delivered_devices (observer_world mw f fds)) \<and>
            queue (snd (run (replicate n [fd mw] @ [[fst fds]]) (observer_world mw f fds)))
              = drop n (queue mw))"
proof -
  have ti: "trace_inv (observer_world mw f fds)" by (rule trace_inv_init[OF assms(1)])
  then have "order_inv (observer_world mw f fds)"
    by (simp add: trace_inv_def observer_world_def)
  then have r: "prefix_inv w'" unfolding assms(3) by (rule run_order)
  have "trace_inv w" unfolding assms(2) by (rule trace_inv_exec[OF ti])
  then have a: "prefix_inv w" "thread w \<noteq> Finished (Some EnvironmentError) \<longrightarrow> order_inv w"
    using order_prefix[of w] by (auto simp: trace_inv_def split: if_splits)
  have b: "thread w = Alive \<and> selectable w \<and> x \<noteq> stop_event_source w \<and>
          queue w = p # ps \<and> p \<noteq> 0 \<longrightarrow>
            invoked (step (Wake [x]) w) = invoked w @ [Device (udev_context (mon w)) p] \<and>
            queue (step (Wake [x]) w) = ps"
    using step_wake_drain[of w x p ps] by blast
  have dd: "take n (delivered_devices (observer_world mw f fds)) =
            map (Device (udev_context (mon mw))) (take n (queue mw))"
    using assms(1) by (simp add: delivered_devices_def observer_world_def take_map)
  have c: "0 \<notin> set (queue mw) \<and> CbRaise \<notin> range f \<and> selectable mw \<and> fd mw \<noteq> fst fds \<and>
          n \<le> length (queue mw) \<longrightarrow>
            fst (run (replicate n [fd mw] @ [[fst fds]]) (observer_world mw f fds)) = Return () \<and>
            invoked (snd (run (replicate n [fd mw] @ [[fst fds]]) (observer_world mw f fds)))
              = take n (delivered_devices (observer_world mw f fds)) \<and>
            queue (snd (run (replicate n [fd mw] @ [[fst fds]]) (observer_world mw f fds)))
              = drop n (queue mw)"
    unfolding dd using run_drain[of mw f fds n] by blast
  from a r have "prefix (invoked w) (delivered_devices w) \<and>
         (thread w \<noteq> Finished (Some EnvironmentError) \<longrightarrow>
            delivered_devices w = invoked w @ map (Device (udev_context (mon w))) (queue w)) \<and>
         prefix (invoked w') (delivered_devices w')"
    by (simp add: prefix_inv_def order_inv_def)
  with b c show ?thesis by blast
qed

lemma range_logging_callback: "CbRaise \<notin> range logging_callback"
  by (auto simp: logging_callback_def)

text \<open>The theorem at work on two concrete histories.\<close>

theorem callback_order_witness:
  "delivered (fresh_mworld 1 2 5) = queue (fresh_mworld 1 2 5) \<and>
   thread (exec [ThreadStart, Arrive 7, Arrive 8, Wake [5], Arrive 9, Wake [5], SendStop, Wake [3]]
             demo_world) \<noteq> Finished (Some EnvironmentError) \<and>
   invoked (exec [ThreadStart, Arrive 7, Arrive 8, Wake [5], Arrive 9, Wake [5], SendStop, Wake [3]]
             demo_world) = [Device 1 7, Device 1 8] \<and>
   delivered_devices (exec [ThreadStart, Arrive 7, Arrive 8, Wake [5], Arrive 9, Wake [5], SendStop, Wake [3]]
             demo_world) = [Device 1 7, Device 1 8, Device 1 9] \<and>
   prefix (invoked (exec [ThreadStart, Arrive 7, Arrive 8, Wake [5], Arrive 9, Wake [5], SendStop, Wake [3]]
             demo_world))
          (delivered_devices (exec [ThreadStart, Arrive 7, Arrive 8, Wake [5], Arrive 9, Wake [5], SendStop, Wake [3]]
             demo_world)) \<and>
   delivered (inject 8 (inject 7 (start (fresh_mworld 1 2 5))))
     = queue (inject 8 (inject 7 (start (fresh_mworld 1 2 5)))) \<and>
   queue (inject 8 (inject 7 (start (fresh_mworld 1 2 5)))) = [7, 8] \<and>
   selectable (inject 8 (inject 7 (start (fresh_mworld 1 2 5)))) \<and>
   fd (inject 8 (inject 7 (start (fresh_mworld 1 2 5)))) \<noteq> fst (3, 4) \<and>
   invoked (snd (run [[5], [5], [3]]
                  (observer_world (inject 8 (inject 7 (start (fresh_mworld 1 2 5))))
                     logging_callback (3, 4))))
     = [Device 1 7, Device 1 8] \<and>
   queue (snd (run [[5], [5], [3]]
                  (observer_world (inject 8 (inject 7 (start (fresh_mworld 1 2 5))))
                     logging_callback (3, 4)))) = [] \<and>
   invoked (snd (run [[5], [3]]
                  (observer_world (inject 8 (inject 7 (start (fresh_mworld 1 2 5))))
                     logging_callback (3, 4))))
     = [Device 1 7] \<and>
   queue (snd (run [[5], [3]]
                  (observer_world (inject 8 (inject 7 (start (fresh_mworld 1 2 5))))
                     logging_callback (3, 4)))) = [8] \<and>
   invoked (step (Wake [5]) (exec [ThreadStart, Arrive 7, Arrive 8] demo_world)) = [Device 1 7]"
proof -
  let ?tr = "[ThreadStart, Arrive 7, Arrive 8, Wake [5], Arrive 9, Wake [5], SendStop, Wake [3]]"
  let ?mw = "inject 8 (inject 7 (start (fresh_mworld 1 2 5)))"
  have d: "delivered (fresh_mworld 1 2 5) = queue (fresh_mworld 1 2 5)"
    by (simp add: fresh_mworld_def)
  have e: "exec ?tr demo_world =
           exec ?tr (observer_world (fresh_mworld 1 2 5) logging_callback (3, 4))"
    by (simp add: demo_world_def)
  have c: "thread (exec ?tr demo_world) \<noteq> Finished (Some EnvironmentError) \<and>
           invoked (exec ?tr demo_world) = [Device 1 7, Device 1 8] \<and>
           delivered_devices (exec ?tr demo_world) = [Device 1 7, Device 1 8, Device 1 9]"
    by (simp add: world_defs delivered_devices_def)
  have s: "exec [ThreadStart, Arrive 7, Arrive 8] demo_world =
           exec [ThreadStart, Arrive 7, Arrive 8]
             (observer_world (fresh_mworld 1 2 5) logging_callback (3, 4))"
    by (simp add: demo_world_def)
  have sw: "thread (exec [ThreadStart, Arrive 7, Arrive 8] demo_world) = Alive \<and>
            selectable (exec [ThreadStart, Arrive 7, Arrive 8] demo_world) \<and>
            5 \<noteq> stop_event_source (exec [ThreadStart, Arrive 7, Arrive 8] demo_world) \<and>
            queue (exec [ThreadStart, Arrive 7, Arrive 8] demo_world) = 7 # [8] \<and>
            invoked (exec [ThreadStart, Arrive 7, Arrive 8] demo_world) = [] \<and>
            udev_context (mon (exec [ThreadStart, Arrive 7, Arrive 8] demo_world)) = 1"
    by (simp add: world_defs)
  have q: "delivered ?mw = queue ?mw" "queue ?mw = [7, 8]" "selectable ?mw"
          "fd ?mw \<noteq> fst (3, 4)" "fd ?mw = 5" "udev_context (mon ?mw) = 1"
    by (simp_all add: monitor_defs)
  have dv: "delivered_devices (observer_world ?mw logging_callback (3, 4))
              = [Device 1 7, Device 1 8]"
    by (simp add: delivered_devices_def observer_world_def monitor_defs)
  have r2: "replicate 2 [5::int] @ [[fst (3::int, 4::int)]] = [[5], [5], [3]]"
           "replicate 1 [5::int] @ [[fst (3::int, 4::int)]] = [[5], [3]]"
    by (simp_all add: eval_nat_numeral)
  from callback_order[OF d e refl, where wakes = "[]" and x = 5 and p = 0 and ps = "[]" and n = 0]
  have 1: "prefix (invoked (exec ?tr demo_world)) (delivered_devices (exec ?tr demo_world))"
    by blast
  from callback_order[OF q(1) refl refl, where tr = "[]" and wakes = "[]" and f = logging_callback
        and fds = "(3, 4)" and x = 5 and p = 0 and ps = "[]" and n = 2]
       q range_logging_callback dv
  have 2: "invoked (snd (run (replicate 2 [5] @ [[fst (3::int, 4::int)]])
                      (observer_world ?mw logging_callback (3, 4)))) = [Device 1 7, Device 1 8] \<and>
           queue (snd (run (replicate 2 [5] @ [[fst (3::int, 4::int)]])
                      (observer_world ?mw logging_callback (3, 4)))) = []"
    by simp
  from callback_order[OF q(1) refl refl, where tr = "[]" and wakes = "[]" and f = logging_callback
        and fds = "(3, 4)" and x = 5 and p = 0 and ps = "[]" and n = 1]
       q range_logging_callback dv
  have 3: "invoked (snd (run (replicate 1 [5] @ [[fst (3::int, 4::int)]])
                      (observer_world ?mw logging_callback (3, 4)))) = [Device 1 7] \<and>
           queue (snd (run (replicate 1 [5] @ [[fst (3::int, 4::int)]])
                      (observer_world ?mw logging_callback (3, 4)))) = [8]"
    by simp
  from callback_order[OF d s refl, where wakes = "[]" and x = 5 and p = 7 and ps = "[8]" and n = 0]
       sw
  have 4: "invoked (step (Wake [5]) (exec [ThreadStart, Arrive 7, Arrive 8] demo_world))
             = [Device 1 7]"
    by (simp del: step.simps)
  from d c 1 2 3 4 q show ?thesis unfolding r2 by (simp del: step.simps)
qed

text \<open>
  C10. An exception that leaves \<^verbatim>\<open>stop()\<close> is one that left \<^verbatim>\<open>send_stop()\<close>, never
  one of \<^verbatim>\<open>join()\<close>. When the thread was never started, or the caller is the observer
  thread, \<^verbatim>\<open>join()\<close> raises \<^verbatim>\<open>RuntimeError\<close>, which is swallowed: \<^verbatim>\<open>stop()\<close>
  does what \<^verbatim>\<open>send_stop()\<close> does and ends as it ends, and in a world that keeps the
  discipline of the pipe that is a normal return with the stop signal sent.
\<close>

theorem stop_swallows:
  "(fst (stop c w) = Raise e \<longrightarrow> fst (send_stop w) = Raise e) \<and>
   (thread w = Initial \<or> c = ObserverThread \<longrightarrow>
      snd (stop c w) = snd (send_stop w) \<and> fst (stop c w) = fst (send_stop w) \<and>
      (pipe_inv w \<longrightarrow> fst (stop c w) = Return () \<and> stop_event_sink (snd (stop c w)) = None))"
proof -
  have 1: "fst (stop c w) = Raise e \<longrightarrow> fst (send_stop w) = Raise e"
    by (auto dest: stop_raise_from_send_stop)
  have 2: "thread w = Initial \<or> c = ObserverThread \<longrightarrow>
      snd (stop c w) = snd (send_stop w) \<and> fst (stop c w) = fst (send_stop w)"
    by (auto simp: stop_no_join split: prod.splits outcome.splits)
  have 3: "pipe_inv w \<longrightarrow> fst (send_stop w) = Return () \<and> stop_event_sink (snd (send_stop w)) = None"
    using send_stop_sink_inv[of w] pipe_inv_sink_source[of w] by (auto simp: pipe_inv_def)
  from 1 2 3 show ?thesis by auto
qed

text \<open>The theorem at work on a concrete history.\<close>

theorem stop_swallows_witness:
  "thread demo_world = Initial \<and> pipe_inv demo_world \<and>
   fst (stop ForeignThread demo_world) = Return () \<and>
   stop_event_sink (snd (stop ForeignThread demo_world)) = None \<and>
   pipe_inv (exec [ThreadStart] demo_world) \<and>
   fst (stop ObserverThread (exec [ThreadStart] demo_world)) = Return ()"
  using stop_swallows[of ForeignThread demo_world OSError]
        stop_swallows[of ObserverThread "exec [ThreadStart] demo_world" OSError]
  by (simp add: world_defs pipe_inv_def sink_inv_def)

end
